theory Spec2Isabelle
  imports Complex_Main "HOL-Library.AList"
begin

section \<open>Strings\<close>

text \<open>
  Python's \<open>str\<close> is modelled as \<open>string\<close>; a character stands for one code point.
  \<open>py_split sep s\<close> is \<open>s.split(sep)\<close> for a one-character separator and
  \<open>py_join sep xs\<close> is \<open>sep.join(xs)\<close>.
\<close>

fun py_split :: "char \<Rightarrow> string \<Rightarrow> string list" where
  "py_split sep [] = [[]]"
| "py_split sep (c # cs) =
     (if c = sep then [] # py_split sep cs
      else (case py_split sep cs of [] \<Rightarrow> [[c]] | x # xs \<Rightarrow> (c # x) # xs))"

fun py_join :: "string \<Rightarrow> string list \<Rightarrow> string" where
  "py_join sep [] = []"
| "py_join sep [x] = x"
| "py_join sep (x # y # ys) = x @ sep @ py_join sep (y # ys)"


text \<open>
  \<open>str.splitlines()\<close>: a line ends at \<open>\n\<close>, \<open>\r\<close>, \<open>\r\n\<close> (one boundary),
  \<open>\v\<close>, \<open>\f\<close>, the separators \<open>\x1c\<close>, \<open>\x1d\<close>, \<open>\x1e\<close> and \<open>\x85\<close>; a final
  line without a terminator is kept, an empty last piece is not.
\<close>

definition is_linebreak :: "char \<Rightarrow> bool" where
  "is_linebreak c = (c \<in> set [CHR 0x0A, CHR 0x0D, CHR 0x0B, CHR 0x0C, CHR 0x1C, CHR 0x1D, CHR 0x1E, CHR 0x85])"

fun splitlines_from :: "string \<Rightarrow> string \<Rightarrow> string list" where
  "splitlines_from cur [] = (if cur = [] then [] else [rev cur])"
| "splitlines_from cur (c # cs) =
     (if c = CHR 0x0D then
        (case cs of
           [] \<Rightarrow> [rev cur]
         | d # ds \<Rightarrow> if d = CHR 0x0A then rev cur # splitlines_from [] ds
                    else rev cur # splitlines_from [] (d # ds))
      else if is_linebreak c then rev cur # splitlines_from [] cs
      else splitlines_from (c # cur) cs)"

definition splitlines :: "string \<Rightarrow> string list" where
  "splitlines s = splitlines_from [] s"

section \<open>The syntax tree read by the analyser\<close>

text \<open>
  The nodes of Python's \<open>ast\<close> module that \<open>analyze_python_file\<close> and
  \<open>generate_docstring\<close> inspect. Expression nodes never contain statements, so they are
  leaves of no interest to the walk and are left out of the child lists (removing them does
  not change the relative order in which \<open>ast.walk\<close> yields the remaining nodes); the one
  expression kept is the value of an expression statement, which decides whether a body
  starts with a documentation string. Every other statement (\<open>if\<close>, \<open>for\<close>, \<open>try\<close>, an
  exception handler, an assignment, \<open>pass\<close>, ...) is an \<open>Other_stmt\<close> with its child
  statements in field order.

  \<open>FunctionDef name args body lineno col_offset\<close> keeps the names of \<open>args.args\<close>.
\<close>

datatype expr = Constant_str string | Other_expr

datatype node =
    Module "node list"
  | FunctionDef string "string list" "node list" nat nat
  | AsyncFunctionDef string "string list" "node list" nat nat
  | ClassDef string "node list" nat nat
  | Import "string list"
  | ImportFrom "string option" "string list"
  | Expr expr
  | Other_stmt "node list"

fun iter_child_nodes :: "node \<Rightarrow> node list" where
  "iter_child_nodes (Module b) = b"
| "iter_child_nodes (FunctionDef _ _ b _ _) = b"
| "iter_child_nodes (AsyncFunctionDef _ _ b _ _) = b"
| "iter_child_nodes (ClassDef _ b _ _) = b"
| "iter_child_nodes (Other_stmt b) = b"
| "iter_child_nodes _ = []"

lemma sum_list_Suc_size:
  "sum_list (map (\<lambda>c. Suc (f c)) xs) = sum_list (map f xs) + length xs"
  by (induction xs) simp_all

lemma size_iter_child_nodes:
  "sum_list (map (\<lambda>c. Suc (size c)) (iter_child_nodes n)) < Suc (size n)"
  by (cases n) (simp_all add: size_list_conv_sum_list sum_list_Suc_size)

text \<open>
  \<open>ast.walk\<close>: a queue that starts with the root; the first node is taken off, its
  children are appended at the end, and the node is yielded. The order is breadth-first.
\<close>

function walk_queue :: "node list \<Rightarrow> node list" where
  "walk_queue [] = []"
| "walk_queue (n # todo) = n # walk_queue (todo @ iter_child_nodes n)"
  by pat_completeness auto
termination
  by (relation "measure (\<lambda>q. sum_list (map (\<lambda>c. Suc (size c)) q))")
     (use size_iter_child_nodes in \<open>auto simp: less_Suc_eq_le\<close>)

definition walk :: "node \<Rightarrow> node list" where
  "walk tree = walk_queue [tree]"

subsection \<open>Documentation strings\<close>

text \<open>
  \<open>inspect.cleandoc\<close>, as \<open>ast.get_docstring\<close> calls it: tabs are expanded to columns of
  eight, the text is split at \<open>\n\<close>, the first line loses its leading whitespace, the
  later lines lose the smallest indentation of a later line that is not blank, and empty
  lines at both ends are dropped. \<open>lstrip\<close> is \<open>str.lstrip()\<close>: whitespace is what
  \<open>str.isspace\<close> accepts, among the characters of the model the controls \<open>\t\<close> to \<open>\r\<close>
  and \<open>\x1c\<close> to \<open>\x1f\<close>, the space, \<open>\x85\<close> and \<open>\xa0\<close>.
\<close>

fun expandtabs_from :: "nat \<Rightarrow> string \<Rightarrow> string" where
  "expandtabs_from col [] = []"
| "expandtabs_from col (c # cs) =
     (if c = CHR 0x09 then
        replicate (8 - col mod 8) CHR '' '' @ expandtabs_from (col + (8 - col mod 8)) cs
      else if c = CHR 0x0A \<or> c = CHR 0x0D then c # expandtabs_from 0 cs
      else c # expandtabs_from (Suc col) cs)"

definition isspace :: "char \<Rightarrow> bool" where
  "isspace c = (c \<in> set [CHR 0x09, CHR 0x0A, CHR 0x0B, CHR 0x0C, CHR 0x0D, CHR 0x1C, CHR 0x1D,
                          CHR 0x1E, CHR 0x1F, CHR 0x20, CHR 0x85, CHR 0xA0])"

definition lstrip :: "string \<Rightarrow> string" where
  "lstrip s = dropWhile isspace s"

definition margin_of :: "string list \<Rightarrow> nat option" where
  "margin_of later =
     (case filter (\<lambda>l. lstrip l \<noteq> []) later of
        [] \<Rightarrow> None
      | l # ls \<Rightarrow> Some (fold min (map (\<lambda>x. length x - length (lstrip x)) ls)
                          (length l - length (lstrip l))))"

definition cleandoc :: "string \<Rightarrow> string" where
  "cleandoc doc =
     (case py_split (CHR 0x0A) (expandtabs_from 0 doc) of
        [] \<Rightarrow> []
      | first # later \<Rightarrow>
          (let later' = (case margin_of later of None \<Rightarrow> later | Some m \<Rightarrow> map (drop m) later);
               ls = lstrip first # later';
               ls1 = rev (dropWhile (\<lambda>l. l = []) (rev ls));
               ls2 = dropWhile (\<lambda>l. l = []) ls1
           in py_join [CHR 0x0A] ls2))"

text \<open>
  \<open>ast.get_docstring(node)\<close>: the cleaned text of a string constant that is the first
  statement of the body, \<open>None\<close> otherwise. Python raises \<open>TypeError\<close> for a node that is
  not a module, a class or a (possibly async) function; every call in the source is
  guarded by \<open>isinstance\<close>, and the model returns \<open>None\<close> there.
\<close>

fun body_docstring :: "node list \<Rightarrow> string option" where
  "body_docstring (Expr (Constant_str s) # _) = Some (cleandoc s)"
| "body_docstring _ = None"

fun get_docstring :: "node \<Rightarrow> string option" where
  "get_docstring (Module b) = body_docstring b"
| "get_docstring (FunctionDef _ _ b _ _) = body_docstring b"
| "get_docstring (AsyncFunctionDef _ _ b _ _) = body_docstring b"
| "get_docstring (ClassDef _ b _ _) = body_docstring b"
| "get_docstring _ = None"

text \<open>The truth value Python gives \<open>ast.get_docstring(node)\<close>: false for \<open>None\<close> and \<open>""\<close>.\<close>

definition truthy_doc :: "string option \<Rightarrow> bool" where
  "truthy_doc d = (case d of None \<Rightarrow> False | Some s \<Rightarrow> s \<noteq> [])"

text \<open>\<open>ast.get_docstring(node) or "No docstring"\<close>.\<close>

definition docstring_or_default :: "node \<Rightarrow> string" where
  "docstring_or_default n =
     (if truthy_doc (get_docstring n) then the (get_docstring n) else ''No docstring'')"

section \<open>The analysis of one file\<close>

record decl_info =
  d_name :: string
  d_lineno :: nat
  d_docstring :: string

record class_info =
  c_name :: string
  c_lineno :: nat
  c_methods :: "decl_info list"
  c_docstring :: string

datatype import_info = Import_name string | From_name "string option" string

record walk_acc =
  acc_classes :: "class_info list"
  acc_functions :: "decl_info list"
  acc_imports :: "import_info list"

record report =
  r_file_path :: string
  r_line_count :: nat
  r_classes :: "class_info list"
  r_functions :: "decl_info list"
  r_imports :: "import_info list"
  r_docstring_coverage :: real
  r_nodes_requiring_docstrings :: nat
  r_docstring_count :: nat

text \<open>The inner loop over \<open>node.body\<close> of a class: only \<open>ast.FunctionDef\<close> children.\<close>

fun methods_of :: "node list \<Rightarrow> decl_info list" where
  "methods_of [] = []"
| "methods_of (FunctionDef nm ps b lno col # rest) =
     \<lparr>d_name = nm, d_lineno = lno,
      d_docstring = docstring_or_default (FunctionDef nm ps b lno col)\<rparr> # methods_of rest"
| "methods_of (_ # rest) = methods_of rest"

text \<open>One turn of the loop over \<open>ast.walk(tree)\<close>: the \<open>if\<close>/\<open>elif\<close> chain.\<close>

fun visit :: "walk_acc \<Rightarrow> node \<Rightarrow> walk_acc" where
  "visit acc (ClassDef nm b lno col) =
     acc\<lparr>acc_classes := acc_classes acc @
       [\<lparr>c_name = nm, c_lineno = lno, c_methods = methods_of b,
         c_docstring = docstring_or_default (ClassDef nm b lno col)\<rparr>]\<rparr>"
| "visit acc (FunctionDef nm ps b lno col) =
     (if col = 0 then
        acc\<lparr>acc_functions := acc_functions acc @
          [\<lparr>d_name = nm, d_lineno = lno,
            d_docstring = docstring_or_default (FunctionDef nm ps b lno col)\<rparr>]\<rparr>
      else acc)"
| "visit acc (Import names) =
     acc\<lparr>acc_imports := acc_imports acc @ map Import_name names\<rparr>"
| "visit acc (ImportFrom m names) =
     acc\<lparr>acc_imports := acc_imports acc @ map (From_name m) names\<rparr>"
| "visit acc _ = acc"

text \<open>\<open>isinstance(node, (ast.FunctionDef, ast.ClassDef, ast.Module))\<close>.\<close>

fun requires_docstring :: "node \<Rightarrow> bool" where
  "requires_docstring (Module _) = True"
| "requires_docstring (FunctionDef _ _ _ _ _) = True"
| "requires_docstring (ClassDef _ _ _ _) = True"
| "requires_docstring _ = False"

definition docstring_count :: "node \<Rightarrow> nat" where
  "docstring_count tree =
     length (filter (\<lambda>n. requires_docstring n \<and> truthy_doc (get_docstring n)) (walk tree))"

definition nodes_requiring_docstrings :: "node \<Rightarrow> nat" where
  "nodes_requiring_docstrings tree = length (filter requires_docstring (walk tree))"

text \<open>
  The coverage is a Python float; the model computes the same quotient over the reals.
\<close>

definition docstring_coverage :: "nat \<Rightarrow> nat \<Rightarrow> real" where
  "docstring_coverage documented required =
     (if required > 0 then (real documented / real required) * 100 else 0)"

definition analyze_tree :: "string \<Rightarrow> string \<Rightarrow> node \<Rightarrow> report" where
  "analyze_tree file_path content tree =
     (let acc = foldl visit \<lparr>acc_classes = [], acc_functions = [], acc_imports = []\<rparr> (walk tree);
          line_count = length (splitlines content);
          documented = docstring_count tree;
          required = nodes_requiring_docstrings tree
      in \<lparr>r_file_path = file_path, r_line_count = line_count,
          r_classes = acc_classes acc, r_functions = acc_functions acc,
          r_imports = acc_imports acc,
          r_docstring_coverage = docstring_coverage documented required,
          r_nodes_requiring_docstrings = required,
          r_docstring_count = documented\<rparr>)"

section \<open>The operating system: errors, paths and files\<close>

text \<open>
  The exceptions the modelled calls raise. \<open>str_error\<close> is \<open>str(e)\<close>; \<open>py_repr\<close> is the
  \<open>repr\<close> of a file name without quotes, backslashes or control characters in it.
\<close>

datatype errno = ENOENT | ENOTDIR | EISDIR | EEXIST

datatype py_error =
    FileNotFoundError string
  | NotADirectoryError string
  | IsADirectoryError string
  | FileExistsError string
  | SyntaxError string
  | ValueError string

definition py_repr :: "string \<Rightarrow> string" where
  "py_repr s = [CHR 0x27] @ s @ [CHR 0x27]"

fun str_error :: "py_error \<Rightarrow> string" where
  "str_error (FileNotFoundError p) = ''[Errno 2] No such file or directory: '' @ py_repr p"
| "str_error (NotADirectoryError p) = ''[Errno 20] Not a directory: '' @ py_repr p"
| "str_error (IsADirectoryError p) = ''[Errno 21] Is a directory: '' @ py_repr p"
| "str_error (FileExistsError p) = ''[Errno 17] File exists: '' @ py_repr p"
| "str_error (SyntaxError m) = m"
| "str_error (ValueError m) = m"

fun os_error :: "errno \<Rightarrow> string \<Rightarrow> py_error" where
  "os_error ENOENT p = FileNotFoundError p"
| "os_error ENOTDIR p = NotADirectoryError p"
| "os_error EISDIR p = IsADirectoryError p"
| "os_error EEXIST p = FileExistsError p"

subsection \<open>\<open>posixpath\<close>\<close>

definition all_slashes :: "string \<Rightarrow> bool" where
  "all_slashes s = list_all (\<lambda>c. c = CHR ''/'') s"

definition rstrip_slashes :: "string \<Rightarrow> string" where
  "rstrip_slashes s = rev (dropWhile (\<lambda>c. c = CHR ''/'') (rev s))"

text \<open>
  \<open>os.path.split\<close>: the text up to and including the last slash and the text after it;
  the head loses its trailing slashes unless it consists of slashes only.
\<close>

definition os_path_split :: "string \<Rightarrow> string \<times> string" where
  "os_path_split p =
     (let head = rev (dropWhile (\<lambda>c. c \<noteq> CHR ''/'') (rev p));
          tail = rev (takeWhile (\<lambda>c. c \<noteq> CHR ''/'') (rev p))
      in (if head \<noteq> [] \<and> \<not> all_slashes head then rstrip_slashes head else head, tail))"

definition os_path_dirname :: "string \<Rightarrow> string" where
  "os_path_dirname p = fst (os_path_split p)"

definition os_path_basename :: "string \<Rightarrow> string" where
  "os_path_basename p = snd (os_path_split p)"

definition os_path_isabs :: "string \<Rightarrow> bool" where
  "os_path_isabs p = (case p of [] \<Rightarrow> False | c # _ \<Rightarrow> c = CHR ''/'')"

definition os_path_join :: "string \<Rightarrow> string \<Rightarrow> string" where
  "os_path_join a b =
     (if os_path_isabs b then b
      else if a = [] \<or> last a = CHR ''/'' then a @ b
      else a @ ''/'' @ b)"

subsection \<open>The file system\<close>

text \<open>
  A file system without symbolic links, permissions or quotas: a finite table from
  resolved locations (the list of directory names below the root, then the entry's name)
  to entries, and the current directory. The root always exists. A call fails only for a
  structural reason: a missing entry, a file where a directory is needed, or a directory
  where a file is needed.
\<close>

type_synonym location = "string list"

datatype entry = File string | Dir

record os_state =
  cwd :: location
  entries :: "(location \<times> entry) list"

definition lookup :: "os_state \<Rightarrow> location \<Rightarrow> entry option" where
  "lookup st k = (if k = [] then Some Dir else map_of (entries st) k)"

definition step :: "location \<Rightarrow> string \<Rightarrow> location" where
  "step k c = (if c = [] \<or> c = ''.'' then k else if c = ''..'' then butlast k else k @ [c])"

text \<open>
  Path resolution: every component is looked up in a directory, so the location reached
  so far must be one; an empty component (a doubled or trailing slash) is \<open>.\<close>.
\<close>

fun path_walk :: "os_state \<Rightarrow> location \<Rightarrow> string list \<Rightarrow> errno + location" where
  "path_walk st k [] = Inr k"
| "path_walk st k (c # cs) =
     (case lookup st k of
        None \<Rightarrow> Inl ENOENT
      | Some (File _) \<Rightarrow> Inl ENOTDIR
      | Some Dir \<Rightarrow> path_walk st (step k c) cs)"

definition start_of :: "os_state \<Rightarrow> string \<Rightarrow> location" where
  "start_of st p = (if os_path_isabs p then [] else cwd st)"

definition resolve :: "os_state \<Rightarrow> string \<Rightarrow> errno + location" where
  "resolve st p =
     (if p = [] then Inl ENOENT else path_walk st (start_of st p) (py_split CHR ''/'' p))"

definition os_path_exists :: "os_state \<Rightarrow> string \<Rightarrow> bool" where
  "os_path_exists st p = (case resolve st p of Inl _ \<Rightarrow> False | Inr k \<Rightarrow> lookup st k \<noteq> None)"

definition os_path_isdir :: "os_state \<Rightarrow> string \<Rightarrow> bool" where
  "os_path_isdir st p = (case resolve st p of Inl _ \<Rightarrow> False | Inr k \<Rightarrow> lookup st k = Some Dir)"


text \<open>
  Reading in text mode translates \<open>\r\n\<close> and a lone \<open>\r\<close> to \<open>\n\<close> (universal
  newlines); writing on a POSIX system stores the text as it is.
\<close>

fun universal_newlines :: "string \<Rightarrow> string" where
  "universal_newlines [] = []"
| "universal_newlines (c # cs) =
     (if c = CHR 0x0D then
        (case cs of
           [] \<Rightarrow> [CHR 0x0A]
         | d # ds \<Rightarrow> if d = CHR 0x0A then CHR 0x0A # universal_newlines ds
                    else CHR 0x0A # universal_newlines (d # ds))
      else c # universal_newlines cs)"

text \<open>\<open>open(p, 'r', encoding='utf-8')\<close> and \<open>read()\<close>.\<close>

definition open_read :: "os_state \<Rightarrow> string \<Rightarrow> py_error + string" where
  "open_read st p =
     (case resolve st p of
        Inl e \<Rightarrow> Inl (os_error e p)
      | Inr k \<Rightarrow>
          (case lookup st k of
             None \<Rightarrow> Inl (FileNotFoundError p)
           | Some Dir \<Rightarrow> Inl (IsADirectoryError p)
           | Some (File text) \<Rightarrow> Inr (universal_newlines text)))"






section \<open>The tools\<close>

text \<open>
  What a tool hands to \<open>json.dumps\<close>: a dictionary is the list of its items in insertion
  order. A tool of the model returns this value (or, for \<open>get_file\<close>, a plain text)
  together with the file system it leaves.
\<close>

datatype json =
    JNull
  | JBool bool
  | JInt int
  | JFloat real
  | JStr string
  | JList "json list"
  | JObj "(string \<times> json) list"

definition get_key :: "json \<Rightarrow> string \<Rightarrow> json option" where
  "get_key j k = (case j of JObj items \<Rightarrow> map_of items k | _ \<Rightarrow> None)"





definition failure :: "py_error \<Rightarrow> json" where
  "failure e = JObj [(''success'', JBool False), (''error'', JStr (str_error e))]"



subsection \<open>\<open>analyze_code\<close>\<close>

text \<open>
  \<open>ast.parse\<close> is a parameter of the model: it maps the text of a file to its tree, or
  to the \<open>SyntaxError\<close> it raises.
\<close>

type_synonym parser = "string \<Rightarrow> py_error + node"

datatype analysis = Report report | Analysis_error string string

definition analyze_python_file :: "parser \<Rightarrow> os_state \<Rightarrow> string \<Rightarrow> analysis" where
  "analyze_python_file parse st file_path =
     (case open_read st file_path of
        Inl e \<Rightarrow> Analysis_error (str_error e) file_path
      | Inr content \<Rightarrow>
          (case parse content of
             Inl e \<Rightarrow> Analysis_error (str_error e) file_path
           | Inr tree \<Rightarrow> Report (analyze_tree file_path content tree)))"






subsection \<open>\<open>generate_docstring\<close>\<close>

text \<open>A \<open>for\<close> loop that keeps the first node passing the test and leaves with \<open>break\<close>.\<close>

fun first_match :: "(node \<Rightarrow> bool) \<Rightarrow> node list \<Rightarrow> node option" where
  "first_match P [] = None"
| "first_match P (n # ns) = (if P n then Some n else first_match P ns)"

text \<open>\<open>isinstance(node, (ast.FunctionDef, ast.ClassDef))\<close>, with the name and the line.\<close>

fun def_or_class :: "node \<Rightarrow> (string \<times> nat) option" where
  "def_or_class (FunctionDef nm _ _ lno _) = Some (nm, lno)"
| "def_or_class (ClassDef nm _ lno _) = Some (nm, lno)"
| "def_or_class _ = None"

definition find_target :: "node \<Rightarrow> string option \<Rightarrow> int option \<Rightarrow> node option" where
  "find_target tree object_name line_number =
     (if object_name \<noteq> None \<and> object_name \<noteq> Some [] then
        first_match (\<lambda>n. case def_or_class n of None \<Rightarrow> False
                                 | Some (nm, _) \<Rightarrow> Some nm = object_name) (walk tree)
      else if line_number \<noteq> None \<and> line_number \<noteq> Some 0 then
        first_match (\<lambda>n. case def_or_class n of None \<Rightarrow> False
                                 | Some (_, lno) \<Rightarrow> Some (int lno) = line_number) (walk tree)
      else
        first_match (\<lambda>n. requires_docstring n \<and> \<not> truthy_doc (get_docstring n)) (walk tree))"





subsection \<open>\<open>glob\<close>\<close>

text \<open>
  The module \<open>glob\<close>, function by function. A directory is listed in the order of the
  table; \<open>fnmatch\<close>, which decides whether a name matches a pattern, is a parameter.
  The recursive listing follows the resolved locations of the subdirectories.
\<close>

definition has_magic :: "string \<Rightarrow> bool" where
  "has_magic s = (\<exists>c \<in> set s. c = CHR ''*'' \<or> c = CHR ''?'' \<or> c = CHR ''['')"

definition isrecursive :: "string \<Rightarrow> bool" where
  "isrecursive pattern = (pattern = ''**'')"

definition ishidden :: "string \<Rightarrow> bool" where
  "ishidden name = (case name of [] \<Rightarrow> False | c # _ \<Rightarrow> c = CHR ''.'')"

definition glob_join :: "string \<Rightarrow> string \<Rightarrow> string" where
  "glob_join dirname basename =
     (if dirname = [] \<or> basename = [] then (if dirname \<noteq> [] then dirname else basename)
      else os_path_join dirname basename)"

definition children :: "os_state \<Rightarrow> location \<Rightarrow> bool \<Rightarrow> string list" where
  "children st k dironly =
     (if lookup st k = Some Dir then
        remdups (map (\<lambda>(k', e). last k')
          (filter (\<lambda>(k', e). k' \<noteq> [] \<and> butlast k' = k \<and> (dironly \<longrightarrow> lookup st k' = Some Dir))
             (entries st)))
      else [])"

definition listdir :: "os_state \<Rightarrow> string \<Rightarrow> bool \<Rightarrow> string list" where
  "listdir st dirname dironly =
     (case resolve st (if dirname = [] then ''.'' else dirname) of
        Inl _ \<Rightarrow> []
      | Inr k \<Rightarrow> children st k dironly)"

definition depth_bound :: "os_state \<Rightarrow> nat" where
  "depth_bound st = Suc (fold max (map (\<lambda>(k, e). length k) (entries st)) 0)"

lemma fold_max_ge: "x \<in> set xs \<Longrightarrow> x \<le> fold max xs (a::nat)"
proof (induction xs arbitrary: a)
  case Nil then show ?case by simp
next
  case (Cons y ys)
  have mono: "\<And>b. b \<le> fold max ys b"
  proof -
    fix b show "b \<le> fold max ys b"
      by (induction ys arbitrary: b) (auto intro: order_trans[OF max.cobounded2])
  qed
  show ?case
  proof (cases "x = y")
    case True
    then show ?thesis using mono[of "max y a"] by simp
  next
    case False
    then show ?thesis using Cons by simp
  qed
qed

lemma children_depth:
  assumes "x \<in> set (children st k dironly)"
  shows "Suc (length k) < depth_bound st"
proof -
  from assms obtain k' e where in_tab: "(k', e) \<in> set (entries st)"
    and ne: "k' \<noteq> []" and par: "butlast k' = k"
    by (auto simp: children_def split: if_splits)
  have "length k' \<in> set (map (\<lambda>(k, e). length k) (entries st))"
    using in_tab by force
  then have "length k' \<le> fold max (map (\<lambda>(k, e). length k) (entries st)) 0"
    by (rule fold_max_ge)
  moreover have "length k' = Suc (length k)"
    using ne par by (cases k' rule: rev_cases) auto
  ultimately show ?thesis by (simp add: depth_bound_def)
qed

function rlistdir :: "os_state \<Rightarrow> location \<Rightarrow> bool \<Rightarrow> string list" where
  "rlistdir st k dironly =
     concat (map (\<lambda>x. if ishidden x then []
                       else x # map (\<lambda>y. glob_join x y) (rlistdir st (k @ [x]) dironly))
                 (children st k dironly))"
  by pat_completeness auto
termination
  apply (relation "measure (\<lambda>(st, k, dironly). depth_bound st - length k)")
   apply simp
  apply (auto dest!: children_depth)
  done


declare rlistdir.simps [simp del]

type_synonym matcher = "string \<Rightarrow> string \<Rightarrow> bool"

definition glob1 :: "matcher \<Rightarrow> os_state \<Rightarrow> string \<Rightarrow> string \<Rightarrow> bool \<Rightarrow> string list" where
  "glob1 fnmatch st dirname pattern dironly =
     (let names = listdir st dirname dironly;
          names' = (if \<not> ishidden pattern then filter (\<lambda>x. \<not> ishidden x) names else names)
      in filter (\<lambda>x. fnmatch x pattern) names')"

definition glob0 :: "os_state \<Rightarrow> string \<Rightarrow> string \<Rightarrow> bool \<Rightarrow> string list" where
  "glob0 st dirname basename dironly =
     (if basename \<noteq> [] then
        (if os_path_exists st (glob_join dirname basename) then [basename] else [])
      else (if os_path_isdir st dirname then [basename] else []))"

definition glob2 :: "os_state \<Rightarrow> string \<Rightarrow> string \<Rightarrow> bool \<Rightarrow> string list" where
  "glob2 st dirname pattern dironly =
     (if dirname = [] \<or> os_path_isdir st dirname then [[]] else [])
     @ (case resolve st (if dirname = [] then ''.'' else dirname) of
          Inl _ \<Rightarrow> []
        | Inr k \<Rightarrow> rlistdir st k dironly)"

lemma length_rstrip_slashes: "length (rstrip_slashes s) \<le> length s"
  unfolding rstrip_slashes_def
  by (metis length_dropWhile_le length_rev)

lemma rstrip_slashes_append: "\<exists>t. s = rstrip_slashes s @ t \<and> all_slashes t"
proof -
  have "rev s = takeWhile (\<lambda>c. c = CHR ''/'') (rev s) @ dropWhile (\<lambda>c. c = CHR ''/'') (rev s)"
    by simp
  then have "s = rev (dropWhile (\<lambda>c. c = CHR ''/'') (rev s)) @ rev (takeWhile (\<lambda>c. c = CHR ''/'') (rev s))"
    by (metis rev_append rev_rev_ident)
  moreover have "all_slashes (rev (takeWhile (\<lambda>c. c = CHR ''/'') (rev s)))"
    unfolding all_slashes_def list_all_iff by (auto dest: set_takeWhileD)
  ultimately show ?thesis unfolding rstrip_slashes_def by blast
qed

lemma os_path_split_append:
  "rev (dropWhile (\<lambda>c. c \<noteq> CHR ''/'') (rev p)) @ os_path_basename p = p"
proof -
  have "rev p = takeWhile (\<lambda>c. c \<noteq> CHR ''/'') (rev p) @ dropWhile (\<lambda>c. c \<noteq> CHR ''/'') (rev p)"
    by simp
  then have "p = rev (dropWhile (\<lambda>c. c \<noteq> CHR ''/'') (rev p)) @ rev (takeWhile (\<lambda>c. c \<noteq> CHR ''/'') (rev p))"
    by (metis rev_append rev_rev_ident)
  then show ?thesis by (simp add: os_path_basename_def os_path_split_def Let_def)
qed

lemma dirname_prefix: "\<exists>t. p = os_path_dirname p @ t"
proof -
  let ?h = "rev (dropWhile (\<lambda>c. c \<noteq> CHR ''/'') (rev p))"
  obtain t where t: "?h = rstrip_slashes ?h @ t"
    using rstrip_slashes_append by blast
  have p: "p = ?h @ os_path_basename p"
    using os_path_split_append[of p] by simp
  show ?thesis
  proof (cases "?h \<noteq> [] \<and> \<not> all_slashes ?h")
    case True
    then have "os_path_dirname p = rstrip_slashes ?h"
      by (simp add: os_path_dirname_def os_path_split_def Let_def)
    then show ?thesis using p t by (metis append.assoc)
  next
    case False
    then have "os_path_dirname p = ?h"
      by (auto simp add: os_path_dirname_def os_path_split_def Let_def)
    then show ?thesis using p by metis
  qed
qed

lemma dirname_shorter:
  "os_path_dirname p \<noteq> p \<Longrightarrow> length (os_path_dirname p) < length p"
proof -
  assume ne: "os_path_dirname p \<noteq> p"
  obtain t where t: "p = os_path_dirname p @ t" using dirname_prefix by blast
  with ne have "t \<noteq> []" by auto
  then show ?thesis using t by (metis length_append length_greater_0_conv less_add_same_cancel1)
qed

function iglob :: "matcher \<Rightarrow> os_state \<Rightarrow> bool \<Rightarrow> bool \<Rightarrow> string \<Rightarrow> string list" where
  "iglob fnmatch st recursive dironly pathname =
     (if \<not> has_magic pathname then
        (if os_path_basename pathname \<noteq> [] then
           (if os_path_exists st pathname then [pathname] else [])
         else (if os_path_isdir st (os_path_dirname pathname) then [pathname] else []))
      else if os_path_dirname pathname = [] then
        (if recursive \<and> isrecursive (os_path_basename pathname)
         then glob2 st (os_path_dirname pathname) (os_path_basename pathname) dironly
         else glob1 fnmatch st (os_path_dirname pathname) (os_path_basename pathname) dironly)
      else
        concat (map (\<lambda>d. map (os_path_join d)
                      ((if has_magic (os_path_basename pathname) then
                          (if recursive \<and> isrecursive (os_path_basename pathname)
                           then glob2 st else glob1 fnmatch st)
                        else glob0 st) d (os_path_basename pathname) dironly))
                 (if os_path_dirname pathname \<noteq> pathname \<and> has_magic (os_path_dirname pathname)
                  then iglob fnmatch st recursive True (os_path_dirname pathname)
                  else [os_path_dirname pathname])))"
  by pat_completeness auto
termination
  by (relation "measure (\<lambda>(fnmatch, st, recursive, dironly, pathname). length pathname)")
     (auto simp: dirname_shorter)

declare iglob.simps [simp del]

definition glob :: "matcher \<Rightarrow> os_state \<Rightarrow> string \<Rightarrow> bool \<Rightarrow> string list" where
  "glob fnmatch st pathname recursive =
     (let it = iglob fnmatch st recursive False pathname in
      if pathname = [] \<or> (recursive \<and> isrecursive (take 2 pathname)) then
        (case it of [] \<Rightarrow> [] | s # rest \<Rightarrow> if s \<noteq> [] then s # rest else rest)
      else it)"


text \<open>
  A matcher for patterns without bracket expressions: \<open>*\<close> stands for any text and
  \<open>?\<close> for one character, as in \<open>fnmatch\<close>.
\<close>

fun fnmatch_simple :: "string \<Rightarrow> string \<Rightarrow> bool" where
  "fnmatch_simple [] [] = True"
| "fnmatch_simple (c # cs) [] = False"
| "fnmatch_simple [] (p # ps) = (p = CHR ''*'' \<and> fnmatch_simple [] ps)"
| "fnmatch_simple (c # cs) (p # ps) =
     (if p = CHR ''*'' then fnmatch_simple (c # cs) ps \<or> fnmatch_simple cs (p # ps)
      else if p = CHR ''?'' then fnmatch_simple cs ps
      else c = p \<and> fnmatch_simple cs ps)"

subsection \<open>\<open>os.path.relpath\<close>\<close>

definition norm_step :: "bool \<Rightarrow> string list \<Rightarrow> string \<Rightarrow> string list" where
  "norm_step rooted acc part =
     (if part = [] \<or> part = ''.'' then acc
      else if part \<noteq> ''..'' \<or> (\<not> rooted \<and> acc = []) \<or> (acc \<noteq> [] \<and> last acc = ''..'')
        then acc @ [part]
      else if acc \<noteq> [] then butlast acc
      else acc)"

definition normpath :: "string \<Rightarrow> string" where
  "normpath path =
     (if path = [] then ''.''
      else
        (let initial_slashes =
               (if os_path_isabs path
                then (if take 2 path = ''//'' \<and> take 3 path \<noteq> ''///'' then 2 else 1)
                else (0::nat));
             comps = foldl (norm_step (initial_slashes \<noteq> 0)) [] (py_split CHR ''/'' path);
             path' = replicate initial_slashes CHR ''/'' @ py_join ''/'' comps
         in if path' = [] then ''.'' else path'))"

definition getcwd :: "os_state \<Rightarrow> string" where
  "getcwd st = ''/'' @ py_join ''/'' (cwd st)"

definition abspath :: "os_state \<Rightarrow> string \<Rightarrow> string" where
  "abspath st path =
     normpath (if os_path_isabs path then path else os_path_join (getcwd st) path)"

fun commonprefix :: "'a list \<Rightarrow> 'a list \<Rightarrow> 'a list" where
  "commonprefix (x # xs) (y # ys) = (if x = y then x # commonprefix xs ys else [])"
| "commonprefix _ _ = []"

definition relpath :: "os_state \<Rightarrow> string \<Rightarrow> string \<Rightarrow> py_error + string" where
  "relpath st path start =
     (if path = [] then Inl (ValueError ''no path specified'')
      else
        (let start_list = filter (\<lambda>x. x \<noteq> []) (py_split CHR ''/'' (abspath st start));
             path_list = filter (\<lambda>x. x \<noteq> []) (py_split CHR ''/'' (abspath st path));
             i = length (commonprefix start_list path_list);
             rel_list = replicate (length start_list - i) ''..'' @ drop i path_list
         in if rel_list = [] then Inr ''.'' else Inr (py_join ''/'' rel_list)))"

subsection \<open>\<open>find_files\<close> and \<open>list_files\<close>\<close>

text \<open>A list comprehension whose element expression may raise.\<close>

fun collect :: "('e + 'a) list \<Rightarrow> 'e + 'a list" where
  "collect [] = Inr []"
| "collect (Inl e # _) = Inl e"
| "collect (Inr x # rest) = (case collect rest of Inl e \<Rightarrow> Inl e | Inr xs \<Rightarrow> Inr (x # xs))"

definition find_matches :: "matcher \<Rightarrow> os_state \<Rightarrow> string \<Rightarrow> string \<Rightarrow> bool \<Rightarrow> string list" where
  "find_matches fnmatch st directory pattern recursive =
     (if recursive
      then glob fnmatch st (os_path_join (os_path_join directory ''**'') pattern) True
      else glob fnmatch st (os_path_join directory pattern) False)"

definition find_files :: "matcher \<Rightarrow> os_state \<Rightarrow> string \<Rightarrow> string \<Rightarrow> bool \<Rightarrow> json" where
  "find_files fnmatch st directory pattern recursive =
     (if \<not> os_path_isdir st directory then
        JObj [(''success'', JBool False), (''error'', JStr (''Directory not found: '' @ directory))]
      else
        (let matches = find_matches fnmatch st directory pattern recursive in
         case collect (map (\<lambda>m. relpath st m directory) matches) of
           Inl e \<Rightarrow> failure e
         | Inr relative_matches \<Rightarrow>
             JObj [(''success'', JBool True), (''pattern'', JStr pattern),
                   (''recursive'', JBool recursive),
                   (''matches'', JList (map JStr matches)),
                   (''relative_matches'', JList (map JStr relative_matches)),
                   (''count'', JInt (int (length matches)))]))"


section \<open>Reading the report\<close>

text \<open>
  The entry the loop appends for a node, as a function of the node: \<open>decl_of\<close> for a
  function or a method, \<open>class_of\<close> for a class, \<open>imports_of\<close> for an import statement.
  \<open>top_level_def\<close> is the test \<open>isinstance(node, ast.FunctionDef) and node.col_offset == 0\<close>.
\<close>

fun is_FunctionDef :: "node \<Rightarrow> bool" where
  "is_FunctionDef (FunctionDef _ _ _ _ _) = True"
| "is_FunctionDef _ = False"

fun is_ClassDef :: "node \<Rightarrow> bool" where
  "is_ClassDef (ClassDef _ _ _ _) = True"
| "is_ClassDef _ = False"

fun col_offset :: "node \<Rightarrow> nat option" where
  "col_offset (FunctionDef _ _ _ _ col) = Some col"
| "col_offset (AsyncFunctionDef _ _ _ _ col) = Some col"
| "col_offset (ClassDef _ _ _ col) = Some col"
| "col_offset _ = None"

fun lineno :: "node \<Rightarrow> nat option" where
  "lineno (FunctionDef _ _ _ lno _) = Some lno"
| "lineno (AsyncFunctionDef _ _ _ lno _) = Some lno"
| "lineno (ClassDef _ _ lno _) = Some lno"
| "lineno _ = None"

fun node_name :: "node \<Rightarrow> string" where
  "node_name (FunctionDef nm _ _ _ _) = nm"
| "node_name (AsyncFunctionDef nm _ _ _ _) = nm"
| "node_name (ClassDef nm _ _ _) = nm"
| "node_name _ = []"

definition top_level_def :: "node \<Rightarrow> bool" where
  "top_level_def n = (is_FunctionDef n \<and> col_offset n = Some 0)"

definition decl_of :: "node \<Rightarrow> decl_info" where
  "decl_of n = \<lparr>d_name = node_name n, d_lineno = the (lineno n), d_docstring = docstring_or_default n\<rparr>"

definition class_of :: "node \<Rightarrow> class_info" where
  "class_of n = \<lparr>c_name = node_name n, c_lineno = the (lineno n),
                  c_methods = map decl_of (filter is_FunctionDef (iter_child_nodes n)),
                  c_docstring = docstring_or_default n\<rparr>"

fun imports_of :: "node \<Rightarrow> import_info list" where
  "imports_of (Import names) = map Import_name names"
| "imports_of (ImportFrom m names) = map (From_name m) names"
| "imports_of _ = []"

subsection \<open>Positions\<close>

text \<open>
  \<open>ast.parse\<close> is not part of the model, so what is known of the positions it assigns is
  a predicate on trees. \<open>lines_ok\<close>: line numbers start at 1 and the statements of one
  body come in source order; the parser assigns line numbers in this way.

  \<open>offsets_ok\<close> is a condition on the layout of the file, which the parser does not
  guarantee: every definition in the module body starts in column 0 and every definition
  nested below a statement of the module body starts in a later column. It holds for a
  file whose lines start with their first token. It fails when a backslash continuation
  moves the \<open>def\<close> of an indented block to column 0 of the next line, and when a form
  feed precedes a \<open>def\<close> of the module body, which then starts in column 1.
\<close>

fun indented :: "node \<Rightarrow> bool" where
  "indented (Module b) = list_all indented b"
| "indented (FunctionDef _ _ b _ col) = (0 < col \<and> list_all indented b)"
| "indented (AsyncFunctionDef _ _ b _ col) = (0 < col \<and> list_all indented b)"
| "indented (ClassDef _ b _ col) = (0 < col \<and> list_all indented b)"
| "indented (Other_stmt b) = list_all indented b"
| "indented _ = True"

definition offsets_ok :: "node list \<Rightarrow> bool" where
  "offsets_ok body =
     list_all (\<lambda>s. (col_offset s = None \<or> col_offset s = Some 0)
                   \<and> list_all indented (iter_child_nodes s)) body"

definition body_lines :: "node list \<Rightarrow> nat list" where
  "body_lines b = List.map_filter lineno b"

fun lines_ok :: "node \<Rightarrow> bool" where
  "lines_ok (Module b) = (sorted (body_lines b) \<and> list_all lines_ok b)"
| "lines_ok (FunctionDef _ _ b lno _) = (1 \<le> lno \<and> sorted (body_lines b) \<and> list_all lines_ok b)"
| "lines_ok (AsyncFunctionDef _ _ b lno _) = (1 \<le> lno \<and> sorted (body_lines b) \<and> list_all lines_ok b)"
| "lines_ok (ClassDef _ b lno _) = (1 \<le> lno \<and> sorted (body_lines b) \<and> list_all lines_ok b)"
| "lines_ok (Other_stmt b) = (sorted (body_lines b) \<and> list_all lines_ok b)"
| "lines_ok _ = True"

subsection \<open>The notions of the specification\<close>

text \<open>
  The specification counts as documentable every module, class-like and function-like
  declaration, and as documented every such node whose documentation string is not
  absent. \<open>spec_coverage\<close> is the coverage computed with these two notions.
\<close>

fun spec_documentable :: "node \<Rightarrow> bool" where
  "spec_documentable (Module _) = True"
| "spec_documentable (ClassDef _ _ _ _) = True"
| "spec_documentable (FunctionDef _ _ _ _ _) = True"
| "spec_documentable (AsyncFunctionDef _ _ _ _ _) = True"
| "spec_documentable _ = False"

definition spec_coverage :: "node \<Rightarrow> real" where
  "spec_coverage tree =
     (let documentable = length (filter spec_documentable (walk tree));
          documented = length (filter (\<lambda>n. spec_documentable n \<and> get_docstring n \<noteq> None) (walk tree))
      in if documentable = 0 then 0 else real documented / real documentable * 100)"

fun spec_function_like :: "node \<Rightarrow> bool" where
  "spec_function_like (FunctionDef _ _ _ _ _) = True"
| "spec_function_like (AsyncFunctionDef _ _ _ _ _) = True"
| "spec_function_like _ = False"

subsection \<open>Example files\<close>

text \<open>
  \<open>example_source\<close> is the text
  \<^verbatim>\<open>
  """m"""
  class A:
      """doc"""
      def m(self): pass
  def g(): pass
  \<close>
  and \<open>example_body\<close> the body of its tree; \<open>example_parse\<close> parses this one text.
  \<open>example_fs\<close> holds it as \<open>/home/m.py\<close>, with \<open>/home\<close> the current directory.
\<close>

definition example_source :: string where
  "example_source =
     [CHR 0x22, CHR 0x22, CHR 0x22] @ ''m'' @ [CHR 0x22, CHR 0x22, CHR 0x22, CHR 0x0A]
     @ ''class A:'' @ [CHR 0x0A]
     @ ''    '' @ [CHR 0x22, CHR 0x22, CHR 0x22] @ ''doc'' @ [CHR 0x22, CHR 0x22, CHR 0x22, CHR 0x0A]
     @ ''    def m(self): pass'' @ [CHR 0x0A]
     @ ''def g(): pass'' @ [CHR 0x0A]"

definition example_m :: node where
  "example_m = FunctionDef ''m'' [''self''] [Other_stmt []] 4 4"

definition example_g :: node where
  "example_g = FunctionDef ''g'' [] [Other_stmt []] 5 0"

definition example_A :: node where
  "example_A = ClassDef ''A'' [Expr (Constant_str ''doc''), example_m] 2 0"

definition example_body :: "node list" where
  "example_body = [Expr (Constant_str ''m''), example_A, example_g]"

definition example_parse :: parser where
  "example_parse text =
     (if text = example_source then Inr (Module example_body)
      else Inl (SyntaxError ''invalid syntax''))"

definition example_fs :: os_state where
  "example_fs =
     \<lparr>cwd = [''home''],
      entries = [([''home''], Dir), ([''home'', ''m.py''], File example_source),
                 ([''home'', ''pkg''], Dir), ([''home'', ''pkg'', ''n.py''], File ''x = 1'')]\<rparr>"

text \<open>
  \<open>async_example\<close> is \<open>"""m"""\<close> followed by \<open>async def f(): pass\<close>;
  \<open>empty_doc_example\<close> is the file \<open>""\<close>, whose documentation string is empty;
  \<open>no_doc_example\<close> is \<open>def f(): pass\<close> and \<open>empty_docstring_example\<close> is
  \<open>def f(): ""\<close>; \<open>async_top_example\<close> is \<open>async def f(): pass\<close>;
  \<open>nested_class_example\<close> is
  \<^verbatim>\<open>
  class A:
      class B: pass
  class C: pass
  \<close>
\<close>

definition async_example :: node where
  "async_example = Module [Expr (Constant_str ''m''), AsyncFunctionDef ''f'' [] [Other_stmt []] 2 0]"

definition empty_doc_example :: node where
  "empty_doc_example = Module [Expr (Constant_str [])]"

definition no_doc_example :: node where
  "no_doc_example = Module [FunctionDef ''f'' [] [Other_stmt []] 1 0]"

definition empty_docstring_example :: node where
  "empty_docstring_example = Module [FunctionDef ''f'' [] [Expr (Constant_str [])] 1 0]"

definition async_top_example :: "node list" where
  "async_top_example = [AsyncFunctionDef ''f'' [] [Other_stmt []] 1 0]"

definition nested_class_example :: "node list" where
  "nested_class_example =
     [ClassDef ''A'' [ClassDef ''B'' [Other_stmt []] 2 4] 1 0,
      ClassDef ''C'' [Other_stmt []] 3 0]"

text \<open>
  \<open>continuation_example\<close> is the file
  \<^verbatim>\<open>
  if x:
      \
  def h(): pass
  def g(): pass
  \<close>
  in which the backslash joins the second line to the third: \<open>h\<close> belongs to the body of
  the \<open>if\<close> and starts in column 0 of line 3. \<open>form_feed_example\<close> is the one line
  \<open>def f(): pass\<close> after a form feed character: \<open>f\<close> is a statement of the module and
  starts in column 1.
\<close>

definition continuation_example :: "node list" where
  "continuation_example =
     [Other_stmt [FunctionDef ''h'' [] [Other_stmt []] 3 0],
      FunctionDef ''g'' [] [Other_stmt []] 4 0]"

definition form_feed_example :: "node list" where
  "form_feed_example = [FunctionDef ''f'' [] [Other_stmt []] 1 1]"

text \<open>
  \<open>nesting_example\<close> is
  \<^verbatim>\<open>
  class A:
      def m(self): pass
  if x:
      def h(): pass
  def g():
      def inner(): pass
  def k(): pass
  \<close>
\<close>

definition nesting_example :: "node list" where
  "nesting_example =
     [ClassDef ''A'' [FunctionDef ''m'' [''self''] [Other_stmt []] 2 4] 1 0,
      Other_stmt [FunctionDef ''h'' [] [Other_stmt []] 4 4],
      FunctionDef ''g'' [] [FunctionDef ''inner'' [] [Other_stmt []] 6 4] 5 0,
      FunctionDef ''k'' [] [Other_stmt []] 7 0]"

subsection \<open>The target of \<open>generate_docstring\<close>\<close>

text \<open>
  The three tests of the search loops, and \<open>target_test\<close>, the one the chain of
  \<open>if object_name\<close>, \<open>elif line_number\<close>, \<open>else\<close> selects: an empty name and the line 0
  are false in Python and count as not given. \<open>is_first P xs x\<close> says that \<open>x\<close> is the
  element of \<open>xs\<close> at the first position that passes \<open>P\<close>.
\<close>

definition undocumented :: "node \<Rightarrow> bool" where
  "undocumented n = (requires_docstring n \<and> \<not> truthy_doc (get_docstring n))"

definition has_name :: "string \<Rightarrow> node \<Rightarrow> bool" where
  "has_name nm n = (case def_or_class n of None \<Rightarrow> False | Some (x, _) \<Rightarrow> x = nm)"

definition at_line :: "int \<Rightarrow> node \<Rightarrow> bool" where
  "at_line l n = (case def_or_class n of None \<Rightarrow> False | Some (_, lno) \<Rightarrow> int lno = l)"

definition target_test :: "string option \<Rightarrow> int option \<Rightarrow> node \<Rightarrow> bool" where
  "target_test object_name line_number n =
     (if object_name \<noteq> None \<and> object_name \<noteq> Some [] then has_name (the object_name) n
      else if line_number \<noteq> None \<and> line_number \<noteq> Some 0 then at_line (the line_number) n
      else undocumented n)"

definition is_first :: "('a \<Rightarrow> bool) \<Rightarrow> 'a list \<Rightarrow> 'a \<Rightarrow> bool" where
  "is_first P xs x = (\<exists>i < length xs. xs ! i = x \<and> P x \<and> (\<forall>j < i. \<not> P (xs ! j)))"

text \<open>
  The scan order the specification names: pre-order, depth first (a node, then the
  subtree of each child in turn).
\<close>

fun preorder :: "node \<Rightarrow> node list" where
  "preorder (Module b) = Module b # concat (map preorder b)"
| "preorder (FunctionDef nm ps b lno col) = FunctionDef nm ps b lno col # concat (map preorder b)"
| "preorder (AsyncFunctionDef nm ps b lno col) = AsyncFunctionDef nm ps b lno col # concat (map preorder b)"
| "preorder (ClassDef nm b lno col) = ClassDef nm b lno col # concat (map preorder b)"
| "preorder (Other_stmt b) = Other_stmt b # concat (map preorder b)"
| "preorder n = [n]"



subsection \<open>Results and file systems\<close>

text \<open>
  \<open>is_success\<close>: the result is a record whose \<open>success\<close> field is true.
  \<open>dirs_kept st st'\<close>: every directory of \<open>st\<close> is one of \<open>st'\<close>, and the current
  directory is the same. \<open>file_text st p\<close> is the text stored in the file that \<open>p\<close>
  names, if it names one. \<open>cr_text\<close> is the text \<open>x\ry\<close>.
\<close>

definition is_success :: "json \<Rightarrow> bool" where
  "is_success j = (get_key j ''success'' = Some (JBool True))"







text \<open>
  \<open>one_part name\<close>: the name holds no separator, so it is a single path component.
  \<open>names_ok\<close>: no name in the table holds a separator. \<open>join_prefix directory\<close> is what
  \<open>os.path.join(directory, name)\<close> puts before \<open>name\<close>.
\<close>

definition names_ok :: "os_state \<Rightarrow> bool" where
  "names_ok st = list_all (\<lambda>(k, e). list_all (\<lambda>c. CHR ''/'' \<notin> set c) k) (entries st)"

definition one_part :: "string \<Rightarrow> bool" where
  "one_part name = (CHR ''/'' \<notin> set name)"

definition join_prefix :: "string \<Rightarrow> string" where
  "join_prefix directory =
     (if directory = [] \<or> last directory = CHR ''/'' then directory else directory @ ''/'')"

section \<open>Properties of the analysis\<close>

subsection \<open>The loop as three selections from the walk\<close>

lemma methods_of_eq: "methods_of b = map decl_of (filter is_FunctionDef b)"
  by (induction b rule: methods_of.induct) (simp_all add: decl_of_def)

lemma visit_classes:
  "acc_classes (visit acc n) = acc_classes acc @ (if is_ClassDef n then [class_of n] else [])"
  by (cases n) (simp_all add: class_of_def methods_of_eq)

lemma visit_functions:
  "acc_functions (visit acc n) = acc_functions acc @ (if top_level_def n then [decl_of n] else [])"
  by (cases n) (simp_all add: top_level_def_def decl_of_def)

lemma visit_imports:
  "acc_imports (visit acc n) = acc_imports acc @ imports_of n"
  by (cases n) simp_all

lemma foldl_visit_classes:
  "acc_classes (foldl visit acc ns) = acc_classes acc @ map class_of (filter is_ClassDef ns)"
  by (induction ns arbitrary: acc) (simp_all add: visit_classes)

lemma foldl_visit_functions:
  "acc_functions (foldl visit acc ns) = acc_functions acc @ map decl_of (filter top_level_def ns)"
  by (induction ns arbitrary: acc) (simp_all add: visit_functions)

lemma foldl_visit_imports:
  "acc_imports (foldl visit acc ns) = acc_imports acc @ concat (map imports_of ns)"
  by (induction ns arbitrary: acc) (simp_all add: visit_imports)

lemma analyze_tree_classes:
  "r_classes (analyze_tree p c t) = map class_of (filter is_ClassDef (walk t))"
  by (simp add: analyze_tree_def Let_def foldl_visit_classes)

lemma analyze_tree_functions:
  "r_functions (analyze_tree p c t) = map decl_of (filter top_level_def (walk t))"
  by (simp add: analyze_tree_def Let_def foldl_visit_functions)

lemma analyze_tree_imports:
  "r_imports (analyze_tree p c t) = concat (map imports_of (walk t))"
  by (simp add: analyze_tree_def Let_def foldl_visit_imports)

subsection \<open>The walk goes level by level\<close>

lemma walk_queue_append:
  "walk_queue (xs @ ys) = xs @ walk_queue (ys @ concat (map iter_child_nodes xs))"
  by (induction xs arbitrary: ys) simp_all

lemma walk_queue_levels:
  "walk_queue q = q @ walk_queue (concat (map iter_child_nodes q))"
  using walk_queue_append[of q "[]"] by simp

lemma walk_Module:
  "walk (Module body) = Module body # body @ walk_queue (concat (map iter_child_nodes body))"
  using walk_queue_levels[of body] by (simp add: walk_def)

lemma walk_queue_all:
  assumes "\<And>n. P n \<Longrightarrow> list_all P (iter_child_nodes n)"
  shows "list_all P q \<Longrightarrow> list_all P (walk_queue q)"
  by (induction q rule: walk_queue.induct) (simp_all add: assms)

lemma filter_none: "list_all (\<lambda>n. \<not> P n) xs \<Longrightarrow> filter P xs = []"
  by (induction xs) auto

lemma list_all_concat: "list_all (\<lambda>s. list_all P (f s)) xs \<Longrightarrow> list_all P (concat (map f xs))"
  by (induction xs) auto

lemma length_filter_conj_le: "length (filter (\<lambda>n. P n \<and> Q n) xs) \<le> length (filter P xs)"
  by (induction xs) auto

lemma filter_conj_all:
  "list_all (\<lambda>n. P n \<longrightarrow> Q n) xs \<Longrightarrow> filter (\<lambda>n. P n \<and> Q n) xs = filter P xs"
  by (induction xs) auto

subsection \<open>Evaluating the examples\<close>

lemma cleandoc_empty: "cleandoc [] = []"
  by (simp add: cleandoc_def margin_of_def lstrip_def)

lemma cleandoc_m: "cleandoc ''m'' = ''m''"
  by (simp add: cleandoc_def margin_of_def lstrip_def isspace_def)

lemma cleandoc_doc: "cleandoc ''doc'' = ''doc''"
  by (simp add: cleandoc_def margin_of_def lstrip_def isspace_def)

lemma universal_newlines_id:
  "CHR 0x0D \<notin> set s \<Longrightarrow> universal_newlines s = s"
  by (induction s rule: universal_newlines.induct) auto

lemma example_source_no_cr: "CHR 0x0D \<notin> set example_source"
  by (simp add: example_source_def)

lemma resolve_example_m: "resolve example_fs ''m.py'' = Inr [''home'', ''m.py'']"
  by (simp add: resolve_def start_of_def os_path_isabs_def example_fs_def lookup_def step_def)

lemma open_read_example: "open_read example_fs ''m.py'' = Inr example_source"
proof -
  have "lookup example_fs [''home'', ''m.py''] = Some (File example_source)"
    by (simp add: lookup_def example_fs_def)
  then show ?thesis
    by (simp add: open_read_def resolve_example_m universal_newlines_id example_source_no_cr)
qed

lemma example_parse_source: "example_parse example_source = Inr (Module example_body)"
  by (simp add: example_parse_def)

lemma walk_example:
  "walk (Module example_body) =
     [Module example_body, Expr (Constant_str ''m''), example_A, example_g,
      Expr (Constant_str ''doc''), example_m, Other_stmt [], Other_stmt []]"
  by (simp add: walk_def example_body_def example_A_def example_g_def example_m_def)

subsection \<open>Coverage\<close>

lemma docstring_count_le: "docstring_count t \<le> nodes_requiring_docstrings t"
  unfolding docstring_count_def nodes_requiring_docstrings_def by (rule length_filter_conj_le)

lemma nodes_requiring_Module: "1 \<le> nodes_requiring_docstrings (Module body)"
  by (simp add: nodes_requiring_docstrings_def walk_def)

lemma coverage_range:
  assumes "d \<le> n"
  shows "0 \<le> docstring_coverage d n \<and> docstring_coverage d n \<le> 100"
proof (cases "n > 0")
  case True
  then have "real d / real n \<le> 1" using assms by simp
  then have "real d / real n * 100 \<le> 1 * 100" by (rule mult_right_mono) simp
  then show ?thesis using True by (simp add: docstring_coverage_def)
next
  case False
  then show ?thesis by (simp add: docstring_coverage_def)
qed

text \<open>
  Claim C1, as stated, fails. In \<open>async_example\<close> the module is documented and the
  async function is not: one of two documentable declarations, yet the reported coverage
  is 100, because \<open>ast.AsyncFunctionDef\<close> is not among the counted node types. In
  \<open>empty_doc_example\<close> the only documentable node, the module, carries a documentation
  string (the empty one), yet the reported coverage is 0, because the count tests the
  truth value of the text.
\<close>

lemma C1_counterexample:
  "r_docstring_coverage (analyze_tree ''a.py'' [] async_example) = 100 \<and>
   spec_coverage async_example = 50 \<and>
   r_docstring_coverage (analyze_tree ''e.py'' [] empty_doc_example) = 0 \<and>
   spec_coverage empty_doc_example = 100"
  by (simp add: analyze_tree_def async_example_def empty_doc_example_def spec_coverage_def
      docstring_coverage_def docstring_count_def nodes_requiring_docstrings_def walk_def
      truthy_doc_def cleandoc_empty cleandoc_m)

text \<open>
  Claim C1, amended. For every file that can be read and parsed, the report's coverage
  is (documented / required) * 100, where required counts the module, the classes and
  the \<open>def\<close> functions of the whole tree (async functions are not counted) and
  documented counts those of them whose cleaned documentation string is not empty. The
  module is always counted, so required is at least 1; the coverage lies in [0, 100], is
  0 when nothing is documented and 100 when every counted node is documented; the
  formula used gives 0 for a count of 0.
\<close>

theorem C1_docstring_coverage:
  assumes rd: "open_read st file_path = Inr content"
    and ps: "parse content = Inr (Module body)"
  shows "\<exists>r. analyze_python_file parse st file_path = Report r
      \<and> r_docstring_count r = docstring_count (Module body)
      \<and> r_nodes_requiring_docstrings r = nodes_requiring_docstrings (Module body)
      \<and> 1 \<le> r_nodes_requiring_docstrings r
      \<and> r_docstring_coverage r
          = real (r_docstring_count r) / real (r_nodes_requiring_docstrings r) * 100
      \<and> 0 \<le> r_docstring_coverage r \<and> r_docstring_coverage r \<le> 100
      \<and> (r_docstring_count r = 0 \<longrightarrow> r_docstring_coverage r = 0)
      \<and> (list_all (\<lambda>n. requires_docstring n \<longrightarrow> truthy_doc (get_docstring n)) (walk (Module body))
           \<longrightarrow> r_docstring_coverage r = 100)
      \<and> docstring_coverage (r_docstring_count r) 0 = 0"
proof -
  let ?t = "Module body"
  let ?r = "analyze_tree file_path content ?t"
  have rep: "analyze_python_file parse st file_path = Report ?r"
    by (simp add: analyze_python_file_def rd ps)
  have pos: "1 \<le> nodes_requiring_docstrings ?t" by (rule nodes_requiring_Module)
  have cov: "r_docstring_coverage ?r
      = real (docstring_count ?t) / real (nodes_requiring_docstrings ?t) * 100"
    using pos by (simp add: analyze_tree_def Let_def docstring_coverage_def)
  have rng: "0 \<le> r_docstring_coverage ?r \<and> r_docstring_coverage ?r \<le> 100"
    using coverage_range[OF docstring_count_le[of ?t]] by (simp add: analyze_tree_def Let_def)
  have full: "r_docstring_coverage ?r = 100"
    if "list_all (\<lambda>n. requires_docstring n \<longrightarrow> truthy_doc (get_docstring n)) (walk ?t)"
  proof -
    have "docstring_count ?t = nodes_requiring_docstrings ?t"
      unfolding docstring_count_def nodes_requiring_docstrings_def
      using filter_conj_all[OF that] by simp
    then show ?thesis using pos cov by simp
  qed
  have cnt: "r_docstring_count ?r = docstring_count ?t"
    "r_nodes_requiring_docstrings ?r = nodes_requiring_docstrings ?t"
    by (simp_all add: analyze_tree_def Let_def)
  show ?thesis
    apply (rule exI[of _ ?r])
    using rep pos cov rng full cnt by (simp add: docstring_coverage_def)
qed

text \<open>Witness for C1: the example file has four counted nodes, two of them documented.\<close>

theorem C1_docstring_coverage_witness:
  "open_read example_fs ''m.py'' = Inr example_source
   \<and> example_parse example_source = Inr (Module example_body)
   \<and> (\<exists>r. analyze_python_file example_parse example_fs ''m.py'' = Report r
         \<and> r_nodes_requiring_docstrings r = 4 \<and> r_docstring_count r = 2
         \<and> r_docstring_coverage r = 50)"
proof -
  have n: "nodes_requiring_docstrings (Module example_body) = 4"
    by (simp add: nodes_requiring_docstrings_def walk_example)
       (simp add: example_A_def example_g_def example_m_def)
  have d: "docstring_count (Module example_body) = 2"
    by (simp add: docstring_count_def walk_example)
       (simp add: example_A_def example_g_def example_m_def example_body_def truthy_doc_def
          cleandoc_m cleandoc_doc)
  from C1_docstring_coverage[of example_fs "''m.py''" example_source example_parse example_body]
    open_read_example example_parse_source
  obtain r where "analyze_python_file example_parse example_fs ''m.py'' = Report r"
    and "r_docstring_count r = docstring_count (Module example_body)"
    and "r_nodes_requiring_docstrings r = nodes_requiring_docstrings (Module example_body)"
    and "r_docstring_coverage r
          = real (r_docstring_count r) / real (r_nodes_requiring_docstrings r) * 100"
    by blast
  then show ?thesis
    using n d open_read_example example_parse_source by simp
qed

subsection \<open>The documentation field\<close>

text \<open>
  Claim C2, as stated, fails: a function without a documentation string and the same
  function with an empty one get the same \<open>docstring\<close> field.
\<close>

lemma C2_counterexample:
  "map get_docstring (filter is_FunctionDef (walk no_doc_example)) = [None] \<and>
   map get_docstring (filter is_FunctionDef (walk empty_docstring_example)) = [Some []] \<and>
   map d_docstring (r_functions (analyze_tree ''a.py'' [] no_doc_example)) = [''No docstring''] \<and>
   map d_docstring (r_functions (analyze_tree ''a.py'' [] empty_docstring_example)) = [''No docstring'']"
  by (simp add: analyze_tree_def Let_def no_doc_example_def empty_docstring_example_def walk_def
      docstring_or_default_def truthy_doc_def cleandoc_empty)

lemma docstring_or_default_cases:
  "docstring_or_default n =
     (case get_docstring n of None \<Rightarrow> ''No docstring''
      | Some d \<Rightarrow> if d = [] then ''No docstring'' else d)"
  by (simp add: docstring_or_default_def truthy_doc_def split: option.splits)

text \<open>
  Claim C2, amended. Every class, method and top-level function entry of the report
  carries a \<open>docstring\<close> field that is never empty: it is the sentinel text
  \<open>No docstring\<close> exactly when the declaration has no documentation string, an empty one
  (after cleaning), or the literal text \<open>No docstring\<close>; for any other declaration it is
  the cleaned documentation string.
\<close>

theorem C2_docstring_field:
  "r_classes (analyze_tree p c t) = map class_of (filter is_ClassDef (walk t))
   \<and> r_functions (analyze_tree p c t) = map decl_of (filter top_level_def (walk t))
   \<and> c_docstring (class_of n) = docstring_or_default n
   \<and> c_methods (class_of n) = map decl_of (filter is_FunctionDef (iter_child_nodes n))
   \<and> d_docstring (decl_of n) = docstring_or_default n
   \<and> docstring_or_default n \<noteq> []
   \<and> (docstring_or_default n = ''No docstring'' \<longleftrightarrow>
        get_docstring n = None \<or> get_docstring n = Some [] \<or> get_docstring n = Some ''No docstring'')
   \<and> (\<forall>d. get_docstring n = Some d \<and> d \<noteq> [] \<longrightarrow> docstring_or_default n = d)"
  by (auto simp: analyze_tree_classes analyze_tree_functions class_of_def decl_of_def
      docstring_or_default_cases split: option.splits)

text \<open>Witness for C2: the documented class of the example file.\<close>

theorem C2_docstring_field_witness:
  "get_docstring example_A = Some ''doc'' \<and> c_docstring (class_of example_A) = ''doc''
   \<and> get_docstring example_g = None \<and> d_docstring (decl_of example_g) = ''No docstring''"
proof -
  have a: "get_docstring example_A = Some ''doc''"
    by (simp add: example_A_def cleandoc_doc)
  have g: "get_docstring example_g = None"
    by (simp add: example_g_def)
  show ?thesis
    using a g C2_docstring_field[of "''m.py''" example_source "Module example_body" example_A]
      C2_docstring_field[of "''m.py''" example_source "Module example_body" example_g]
    by simp
qed

subsection \<open>Top-level functions\<close>

lemma indented_children: "indented n \<Longrightarrow> list_all indented (iter_child_nodes n)"
  by (cases n) simp_all

lemma indented_not_top: "indented n \<Longrightarrow> \<not> top_level_def n"
  by (cases n) (simp_all add: top_level_def_def)

lemma offsets_ok_top: "offsets_ok body \<Longrightarrow> filter top_level_def body = filter is_FunctionDef body"
proof (induction body)
  case Nil then show ?case by simp
next
  case (Cons s body)
  then have ok: "offsets_ok body" and s: "col_offset s = None \<or> col_offset s = Some 0"
    by (simp_all add: offsets_ok_def)
  have "top_level_def s = is_FunctionDef s"
    using s by (cases s) (simp_all add: top_level_def_def)
  then show ?case using Cons.IH[OF ok] by simp
qed

lemma offsets_ok_below:
  assumes "offsets_ok body"
  shows "filter top_level_def (walk_queue (concat (map iter_child_nodes body))) = []"
proof -
  have "list_all (\<lambda>s. list_all indented (iter_child_nodes s)) body"
    using assms by (simp add: offsets_ok_def list_all_iff)
  then have "list_all indented (concat (map iter_child_nodes body))"
    by (rule list_all_concat)
  then have "list_all indented (walk_queue (concat (map iter_child_nodes body)))"
    by (rule walk_queue_all[rotated]) (rule indented_children)
  then have "list_all (\<lambda>n. \<not> top_level_def n) (walk_queue (concat (map iter_child_nodes body)))"
    by (simp add: list_all_iff indented_not_top)
  then show ?thesis by (rule filter_none)
qed

lemma functions_are_top_level:
  assumes "offsets_ok body"
  shows "r_functions (analyze_tree p c (Module body)) = map decl_of (filter is_FunctionDef body)"
  using offsets_ok_top[OF assms] offsets_ok_below[OF assms]
  by (simp add: analyze_tree_functions walk_Module top_level_def_def)

lemma functions_by_level:
  "r_functions (analyze_tree p c (Module body))
     = map decl_of (filter top_level_def body)
       @ map decl_of (filter top_level_def (walk_queue (concat (map iter_child_nodes body))))"
  by (simp add: analyze_tree_functions walk_Module top_level_def_def)

text \<open>
  Claim C3, as stated, fails in three ways. An \<open>async def\<close> at module level is a
  function-like declaration of nesting depth zero and is not in the list of top-level
  functions. The test of the code is the column of the \<open>def\<close>, not its depth: in
  \<open>continuation_example\<close> the function \<open>h\<close>, nested in an \<open>if\<close>, starts in column 0 and
  is listed; in \<open>form_feed_example\<close> the function \<open>f\<close> of the module body starts in
  column 1 and is not listed.
\<close>

lemma C3_counterexample:
  "filter spec_function_like async_top_example = async_top_example \<and>
   r_functions (analyze_tree ''a.py'' [] (Module async_top_example)) = [] \<and>
   filter is_FunctionDef continuation_example = [FunctionDef ''g'' [] [Other_stmt []] 4 0] \<and>
   map d_name (r_functions (analyze_tree ''a.py'' [] (Module continuation_example))) = [''g'', ''h''] \<and>
   filter is_FunctionDef form_feed_example = form_feed_example \<and>
   form_feed_example \<noteq> [] \<and>
   r_functions (analyze_tree ''a.py'' [] (Module form_feed_example)) = []"
  by (simp add: async_top_example_def continuation_example_def form_feed_example_def
      analyze_tree_def Let_def walk_def)

text \<open>
  Claim C3, amended. For every parsed file, the report's list of top-level functions
  holds exactly the \<open>def\<close> nodes of the tree that start in column 0 (\<open>async def\<close>
  functions never appear), in the order of the walk: those of the module body in their
  order, then those found below the statements of the module body. In a file where
  every definition of the module body starts in column 0 and every definition below
  starts in a later column, the list is therefore exactly the \<open>def\<close> statements of the
  module body, in their order: methods, functions nested in functions and functions
  inside a compound statement at module level are excluded.
\<close>

theorem C3_top_level_functions:
  "r_functions (analyze_tree p c (Module body))
     = map decl_of (filter (\<lambda>n. is_FunctionDef n \<and> col_offset n = Some 0) body)
       @ map decl_of (filter (\<lambda>n. is_FunctionDef n \<and> col_offset n = Some 0)
                        (walk_queue (concat (map iter_child_nodes body))))
   \<and> (offsets_ok body
        \<longrightarrow> r_functions (analyze_tree p c (Module body)) = map decl_of (filter is_FunctionDef body))"
proof (intro conjI impI)
  show "r_functions (analyze_tree p c (Module body))
     = map decl_of (filter (\<lambda>n. is_FunctionDef n \<and> col_offset n = Some 0) body)
       @ map decl_of (filter (\<lambda>n. is_FunctionDef n \<and> col_offset n = Some 0)
                        (walk_queue (concat (map iter_child_nodes body))))"
    using functions_by_level[of p c body] by (simp add: top_level_def_def[abs_def])
next
  assume "offsets_ok body"
  then show "r_functions (analyze_tree p c (Module body)) = map decl_of (filter is_FunctionDef body)"
    by (rule functions_are_top_level)
qed

text \<open>Witness for C3: of the five functions of \<open>nesting_example\<close> only \<open>g\<close> and \<open>k\<close> are listed.\<close>

theorem C3_top_level_functions_witness:
  "offsets_ok nesting_example
   \<and> map d_name (r_functions (analyze_tree ''n.py'' [] (Module nesting_example))) = [''g'', ''k'']"
proof -
  have ok: "offsets_ok nesting_example"
    by (simp add: offsets_ok_def nesting_example_def)
  show ?thesis
    using ok C3_top_level_functions[of "''n.py''" "[]" nesting_example]
    by (simp add: nesting_example_def decl_of_def)
qed

subsection \<open>Line numbers\<close>

lemma lines_ok_children: "lines_ok n \<Longrightarrow> list_all lines_ok (iter_child_nodes n)"
  by (cases n) simp_all

lemma lines_ok_walk: "lines_ok t \<Longrightarrow> list_all lines_ok (walk t)"
  unfolding walk_def by (rule walk_queue_all) (simp_all add: lines_ok_children)

lemma sorted_selected:
  assumes "sorted (List.map_filter f xs)" and "\<And>x. Q x \<Longrightarrow> f x \<noteq> None"
  shows "sorted (map (\<lambda>x. the (f x)) (filter Q xs))"
  using assms(1)
proof (induction xs)
  case Nil then show ?case by simp
next
  case (Cons x xs)
  show ?case
  proof (cases "f x")
    case None
    then have "\<not> Q x" using assms(2)[of x] by auto
    then show ?thesis using Cons None by simp
  next
    case (Some l)
    then have srt: "sorted (List.map_filter f xs)" and le: "\<forall>y \<in> set (List.map_filter f xs). l \<le> y"
      using Cons.prems by simp_all
    have "l \<le> the (f z)" if mem: "z \<in> set xs" and fd: "Q z" for z
    proof -
      obtain y where "f z = Some y" using assms(2)[OF fd] by auto
      then show ?thesis using le mem by (force simp: List.map_filter_def)
    qed
    then show ?thesis using Cons.IH[OF srt] Some by auto
  qed
qed

lemma is_FunctionDef_lineno: "is_FunctionDef n \<Longrightarrow> lineno n \<noteq> None"
  by (cases n) simp_all

lemma is_ClassDef_lineno: "is_ClassDef n \<Longrightarrow> lineno n \<noteq> None"
  by (cases n) simp_all

lemma lines_ok_lineno: "lines_ok n \<Longrightarrow> lineno n = Some l \<Longrightarrow> 1 \<le> l"
  by (cases n) simp_all

lemma lines_ok_sorted: "lines_ok n \<Longrightarrow> sorted (body_lines (iter_child_nodes n))"
  by (cases n) (simp_all add: body_lines_def)

lemma class_of_ok:
  assumes "lines_ok n" "is_ClassDef n"
  shows "1 \<le> c_lineno (class_of n) \<and> list_all (\<lambda>m. 1 \<le> d_lineno m) (c_methods (class_of n))
         \<and> sorted (map d_lineno (c_methods (class_of n)))"
proof -
  obtain l where l: "lineno n = Some l" using is_ClassDef_lineno[OF assms(2)] by auto
  have a: "1 \<le> c_lineno (class_of n)"
    using lines_ok_lineno[OF assms(1) l] l by (simp add: class_of_def)
  have ch: "list_all lines_ok (iter_child_nodes n)" by (rule lines_ok_children[OF assms(1)])
  have b: "list_all (\<lambda>m. 1 \<le> d_lineno m) (c_methods (class_of n))"
  proof -
    have "1 \<le> d_lineno (decl_of m)" if mem: "m \<in> set (iter_child_nodes n)" and fd: "is_FunctionDef m" for m
    proof -
      obtain k where k: "lineno m = Some k" using is_FunctionDef_lineno[OF fd] by auto
      have "lines_ok m" using ch mem by (simp add: list_all_iff)
      then show ?thesis using lines_ok_lineno k by (simp add: decl_of_def)
    qed
    then show ?thesis by (auto simp: class_of_def list_all_iff)
  qed
  have "sorted (map (\<lambda>x. the (lineno x)) (filter is_FunctionDef (iter_child_nodes n)))"
    using lines_ok_sorted[OF assms(1)] is_FunctionDef_lineno
    unfolding body_lines_def by (rule sorted_selected)
  then have c: "sorted (map d_lineno (c_methods (class_of n)))"
    by (simp add: class_of_def decl_of_def comp_def)
  show ?thesis using a b c by simp
qed

lemma classes_by_level:
  "r_classes (analyze_tree p c (Module body))
     = map class_of (filter is_ClassDef body)
       @ map class_of (filter is_ClassDef (walk_queue (concat (map iter_child_nodes body))))"
  by (simp add: analyze_tree_classes walk_Module)

lemma decl_of_line:
  assumes "lines_ok n" "is_FunctionDef n"
  shows "1 \<le> d_lineno (decl_of n)"
proof -
  obtain k where k: "lineno n = Some k" using is_FunctionDef_lineno[OF assms(2)] by auto
  then show ?thesis using lines_ok_lineno[OF assms(1) k] by (simp add: decl_of_def)
qed

text \<open>
  Claim C4, as stated, fails: the lists are in the breadth-first order of the walk, so
  a nested class comes after every class of the module body. In \<open>nested_class_example\<close>
  the classes are reported with the lines 1, 3, 2. The same holds for a nested function
  that starts in column 0: in \<open>continuation_example\<close> the functions are reported with the
  lines 4, 3.
\<close>

lemma C4_counterexample:
  "lines_ok (Module nested_class_example) \<and> offsets_ok nested_class_example \<and>
   map c_lineno (r_classes (analyze_tree ''a.py'' [] (Module nested_class_example))) = [1, 3, 2] \<and>
   \<not> sorted (map c_lineno (r_classes (analyze_tree ''a.py'' [] (Module nested_class_example)))) \<and>
   lines_ok (Module continuation_example) \<and>
   map d_lineno (r_functions (analyze_tree ''a.py'' [] (Module continuation_example))) = [4, 3] \<and>
   \<not> sorted (map d_lineno (r_functions (analyze_tree ''a.py'' [] (Module continuation_example))))"
  by (simp add: nested_class_example_def continuation_example_def offsets_ok_def body_lines_def
      analyze_tree_def Let_def walk_def List.map_filter_def)

text \<open>
  Claim C4, amended. For every parsed file (line numbers from 1, each body in source
  order), all line numbers of the report are at least 1 and the line numbers of each
  class's method list are non-decreasing. The class list holds the classes of the
  module body in source order, followed by the classes nested below the statements of
  the module body: a nested class is listed after all classes of the module body, and
  the line numbers of the list are non-decreasing when no class is nested. The
  function list holds the column-0 \<open>def\<close>s of the module body in source order, followed
  by the column-0 \<open>def\<close>s below: its line numbers are non-decreasing when no \<open>def\<close>
  below the module body starts in column 0, as in every file where nested definitions
  are indented.
\<close>

theorem C4_line_numbers:
  assumes lok: "lines_ok (Module body)"
  shows "list_all (\<lambda>c. 1 \<le> c_lineno c \<and> list_all (\<lambda>m. 1 \<le> d_lineno m) (c_methods c)
                        \<and> sorted (map d_lineno (c_methods c)))
           (r_classes (analyze_tree p c (Module body)))
       \<and> list_all (\<lambda>f. 1 \<le> d_lineno f) (r_functions (analyze_tree p c (Module body)))
       \<and> r_classes (analyze_tree p c (Module body))
           = map class_of (filter is_ClassDef body)
             @ map class_of (filter is_ClassDef (walk_queue (concat (map iter_child_nodes body))))
       \<and> sorted (map c_lineno (map class_of (filter is_ClassDef body)))
       \<and> r_functions (analyze_tree p c (Module body))
           = map decl_of (filter top_level_def body)
             @ map decl_of (filter top_level_def (walk_queue (concat (map iter_child_nodes body))))
       \<and> sorted (map d_lineno (map decl_of (filter top_level_def body)))
       \<and> (list_all (\<lambda>n. \<not> is_ClassDef n) (walk_queue (concat (map iter_child_nodes body)))
            \<longrightarrow> sorted (map c_lineno (r_classes (analyze_tree p c (Module body)))))
       \<and> (list_all (\<lambda>n. \<not> top_level_def n) (walk_queue (concat (map iter_child_nodes body)))
            \<longrightarrow> sorted (map d_lineno (r_functions (analyze_tree p c (Module body)))))
       \<and> (offsets_ok body
            \<longrightarrow> sorted (map d_lineno (r_functions (analyze_tree p c (Module body)))))"
proof -
  let ?t = "Module body"
  let ?deep = "walk_queue (concat (map iter_child_nodes body))"
  have all_ok: "list_all lines_ok (walk ?t)" by (rule lines_ok_walk[OF lok])
  have cls: "list_all (\<lambda>c. 1 \<le> c_lineno c \<and> list_all (\<lambda>m. 1 \<le> d_lineno m) (c_methods c)
                        \<and> sorted (map d_lineno (c_methods c))) (r_classes (analyze_tree p c ?t))"
    unfolding analyze_tree_classes using all_ok class_of_ok
    by (auto simp: list_all_iff)
  have f1: "list_all (\<lambda>f. 1 \<le> d_lineno f) (r_functions (analyze_tree p c ?t))"
    unfolding analyze_tree_functions using all_ok decl_of_line
    by (auto simp: list_all_iff top_level_def_def)
  have cl: "r_classes (analyze_tree p c ?t)
      = map class_of (filter is_ClassDef body) @ map class_of (filter is_ClassDef ?deep)"
    by (rule classes_by_level)
  have fl: "r_functions (analyze_tree p c ?t)
      = map decl_of (filter top_level_def body) @ map decl_of (filter top_level_def ?deep)"
    by (rule functions_by_level)
  have "sorted (map (\<lambda>x. the (lineno x)) (filter is_ClassDef body))"
    using lines_ok_sorted[OF lok] is_ClassDef_lineno
    unfolding body_lines_def by (simp add: sorted_selected)
  then have cs: "sorted (map c_lineno (map class_of (filter is_ClassDef body)))"
    by (simp add: class_of_def comp_def)
  have "sorted (List.map_filter lineno body)" using lok by (simp add: body_lines_def)
  then have "sorted (map (\<lambda>x. the (lineno x)) (filter top_level_def body))"
    by (rule sorted_selected) (simp add: top_level_def_def is_FunctionDef_lineno)
  then have fs: "sorted (map d_lineno (map decl_of (filter top_level_def body)))"
    by (simp add: decl_of_def comp_def)
  have c2: "sorted (map c_lineno (r_classes (analyze_tree p c ?t)))"
    if "list_all (\<lambda>n. \<not> is_ClassDef n) ?deep"
    using cs filter_none[OF that] unfolding cl by simp
  have f2: "sorted (map d_lineno (r_functions (analyze_tree p c ?t)))"
    if "list_all (\<lambda>n. \<not> top_level_def n) ?deep"
    using fs filter_none[OF that] unfolding fl by simp
  have f3: "sorted (map d_lineno (r_functions (analyze_tree p c ?t)))" if "offsets_ok body"
    using fs offsets_ok_below[OF that] unfolding fl by simp
  show ?thesis using cls f1 cl cs fl fs c2 f2 f3 by blast
qed

text \<open>Witness for C4: the example file.\<close>

theorem C4_line_numbers_witness:
  "lines_ok (Module example_body) \<and> offsets_ok example_body
   \<and> list_all (\<lambda>n. \<not> is_ClassDef n) (walk_queue (concat (map iter_child_nodes example_body)))
   \<and> list_all (\<lambda>n. \<not> top_level_def n) (walk_queue (concat (map iter_child_nodes example_body)))
   \<and> list_all (\<lambda>c. 1 \<le> c_lineno c \<and> list_all (\<lambda>m. 1 \<le> d_lineno m) (c_methods c)
                    \<and> sorted (map d_lineno (c_methods c)))
        (r_classes (analyze_tree ''m.py'' example_source (Module example_body)))
   \<and> sorted (map d_lineno (r_functions (analyze_tree ''m.py'' example_source (Module example_body))))
   \<and> sorted (map c_lineno (r_classes (analyze_tree ''m.py'' example_source (Module example_body))))"
proof -
  have l: "lines_ok (Module example_body)"
    by (simp add: example_body_def example_A_def example_g_def example_m_def body_lines_def)
  have ok: "offsets_ok example_body"
    by (simp add: offsets_ok_def example_body_def example_A_def example_g_def example_m_def)
  have nc: "list_all (\<lambda>n. \<not> is_ClassDef n) (walk_queue (concat (map iter_child_nodes example_body)))"
    by (simp add: example_body_def example_A_def example_g_def example_m_def)
  have nf: "list_all (\<lambda>n. \<not> top_level_def n) (walk_queue (concat (map iter_child_nodes example_body)))"
    by (simp add: example_body_def example_A_def example_g_def example_m_def top_level_def_def)
  show ?thesis
    using l ok nc nf C4_line_numbers[OF l, of "''m.py''" example_source] by blast
qed

subsection \<open>The target of \<open>generate_docstring\<close>\<close>

lemma first_match_is_first: "first_match P xs = Some n \<longleftrightarrow> is_first P xs n"
proof (induction xs)
  case Nil
  then show ?case by (simp add: is_first_def)
next
  case (Cons x xs)
  show ?case
  proof (cases "P x")
    case True
    have "is_first P (x # xs) n \<longleftrightarrow> x = n"
    proof
      assume "is_first P (x # xs) n"
      then obtain i where i: "i < length (x # xs)" "(x # xs) ! i = n" "\<forall>j < i. \<not> P ((x # xs) ! j)"
        unfolding is_first_def by blast
      have "i = 0"
      proof (rule ccontr)
        assume "i \<noteq> 0"
        then have "\<not> P ((x # xs) ! 0)" using i(3) by blast
        then show False using True by simp
      qed
      then show "x = n" using i(2) by simp
    next
      assume "x = n"
      then show "is_first P (x # xs) n"
        unfolding is_first_def using True by (intro exI[of _ 0]) simp
    qed
    then show ?thesis using True by auto
  next
    case False
    have "is_first P (x # xs) n \<longleftrightarrow> is_first P xs n"
    proof
      assume "is_first P (x # xs) n"
      then obtain i where i: "i < length (x # xs)" "(x # xs) ! i = n" "P n"
        "\<forall>j < i. \<not> P ((x # xs) ! j)"
        unfolding is_first_def by blast
      have "i \<noteq> 0" using i(2,3) False by (cases i) auto
      then obtain k where k: "i = Suc k" by (cases i) auto
      have "\<forall>j < k. \<not> P (xs ! j)"
      proof (intro allI impI)
        fix j assume "j < k"
        then have "Suc j < i" using k by simp
        then have "\<not> P ((x # xs) ! Suc j)" using i(4) by blast
        then show "\<not> P (xs ! j)" by simp
      qed
      then show "is_first P xs n"
        unfolding is_first_def using i k by (intro exI[of _ k]) simp
    next
      assume "is_first P xs n"
      then obtain i where i: "i < length xs" "xs ! i = n" "P n" "\<forall>j < i. \<not> P (xs ! j)"
        unfolding is_first_def by blast
      have "\<forall>j < Suc i. \<not> P ((x # xs) ! j)"
      proof (intro allI impI)
        fix j assume j: "j < Suc i"
        show "\<not> P ((x # xs) ! j)"
          using j False i(4) by (cases j) auto
      qed
      then show "is_first P (x # xs) n"
        unfolding is_first_def using i by (intro exI[of _ "Suc i"]) simp
    qed
    then show ?thesis using False Cons.IH by simp
  qed
qed

lemma first_match_None: "first_match P xs = None \<longleftrightarrow> list_all (\<lambda>n. \<not> P n) xs"
  by (induction xs) auto

lemma find_target_eq:
  "find_target tree object_name line_number
     = first_match (target_test object_name line_number) (walk tree)"
proof -
  have a: "(\<lambda>n. case def_or_class n of None \<Rightarrow> False | Some (nm, _) \<Rightarrow> Some nm = object_name)
         = has_name (the object_name)" if "object_name \<noteq> None"
    using that by (auto simp: has_name_def fun_eq_iff split: option.splits)
  have b: "(\<lambda>n. case def_or_class n of None \<Rightarrow> False | Some (_, lno) \<Rightarrow> Some (int lno) = line_number)
         = at_line (the line_number)" if "line_number \<noteq> None"
    using that by (auto simp: at_line_def fun_eq_iff split: option.splits)
  have c: "(\<lambda>n. requires_docstring n \<and> \<not> truthy_doc (get_docstring n)) = undocumented"
    by (simp add: undocumented_def fun_eq_iff)
  have d: "target_test object_name line_number =
     (if object_name \<noteq> None \<and> object_name \<noteq> Some [] then has_name (the object_name)
      else if line_number \<noteq> None \<and> line_number \<noteq> Some 0 then at_line (the line_number)
      else undocumented)"
    by (simp add: target_test_def fun_eq_iff)
  show ?thesis
    unfolding find_target_def d using a b c by simp
qed

text \<open>
  Claim C5, as stated, fails: \<open>ast.walk\<close> is breadth-first, not pre-order. In the example
  file the first undocumented declaration in pre-order is the method \<open>m\<close> of class \<open>A\<close>
  (line 4); \<open>generate_docstring\<close> without a name or a line targets the function \<open>g\<close>
  (line 5), a statement of the module body.
\<close>

lemma C5_counterexample:
  "first_match undocumented (preorder (Module example_body)) = Some example_m
   \<and> find_target (Module example_body) None None = Some example_g
   \<and> example_m \<noteq> example_g"
proof -
  have um: "undocumented example_m" and ug: "undocumented example_g"
    by (simp_all add: undocumented_def example_m_def example_g_def truthy_doc_def)
  have dA: "\<not> undocumented example_A"
    by (simp add: undocumented_def example_A_def truthy_doc_def cleandoc_doc)
  have dM: "\<not> undocumented (Module example_body)"
    by (simp add: undocumented_def example_body_def truthy_doc_def cleandoc_m)
  have e: "\<not> undocumented (Expr x)" for x
    by (simp add: undocumented_def)
  have pre: "preorder (Module example_body)
      = [Module example_body, Expr (Constant_str ''m''), example_A, Expr (Constant_str ''doc''),
         example_m, Other_stmt [], example_g, Other_stmt []]"
    by (simp add: example_body_def example_A_def example_m_def example_g_def)
  have a: "first_match undocumented (preorder (Module example_body)) = Some example_m"
    unfolding pre using um dA dM e by simp
  have b: "find_target (Module example_body) None None = Some example_g"
    unfolding find_target_eq walk_example using ug dA dM e
    by (simp add: target_test_def)
  have c: "example_m \<noteq> example_g"
    by (simp add: example_m_def example_g_def)
  show ?thesis using a b c by simp
qed

text \<open>
  Claim C5, amended. \<open>generate_docstring\<close> scans the whole tree in the breadth-first
  order of \<open>ast.walk\<close> (the module, then the statements of its body, then their children,
  level by level) and takes the first node that passes the test; it finds no target
  exactly when no node passes. With a non-empty name the test is: a \<open>def\<close> or class of
  that name; otherwise with a non-zero line: a \<open>def\<close> or class at that line; otherwise: a
  module, class or \<open>def\<close> whose documentation string is absent or empty. In the last
  case a module without documentation is itself the target.
\<close>

theorem C5_target_selection:
  "(find_target tree object_name line_number = Some n
      \<longleftrightarrow> is_first (target_test object_name line_number) (walk tree) n)
   \<and> (find_target tree object_name line_number = None
      \<longleftrightarrow> list_all (\<lambda>m. \<not> target_test object_name line_number m) (walk tree))
   \<and> walk (Module body) = Module body # body @ walk_queue (concat (map iter_child_nodes body))
   \<and> walk_queue q = q @ walk_queue (concat (map iter_child_nodes q))
   \<and> (\<not> truthy_doc (get_docstring (Module body))
        \<longrightarrow> find_target (Module body) None None = Some (Module body))"
proof (intro conjI impI)
  show "find_target tree object_name line_number = Some n
      \<longleftrightarrow> is_first (target_test object_name line_number) (walk tree) n"
    unfolding find_target_eq by (rule first_match_is_first)
  show "find_target tree object_name line_number = None
      \<longleftrightarrow> list_all (\<lambda>m. \<not> target_test object_name line_number m) (walk tree)"
    unfolding find_target_eq by (rule first_match_None)
  show "walk (Module body) = Module body # body @ walk_queue (concat (map iter_child_nodes body))"
    by (rule walk_Module)
  show "walk_queue q = q @ walk_queue (concat (map iter_child_nodes q))"
    by (rule walk_queue_levels)
next
  assume "\<not> truthy_doc (get_docstring (Module body))"
  then have "target_test None None (Module body)"
    by (simp add: target_test_def undocumented_def)
  then show "find_target (Module body) None None = Some (Module body)"
    unfolding find_target_eq walk_Module by simp
qed

text \<open>Witness for C5: the example file, without a target and with the name \<open>m\<close>.\<close>

theorem C5_target_selection_witness:
  "find_target (Module example_body) None None = Some example_g
   \<and> is_first (target_test None None) (walk (Module example_body)) example_g
   \<and> find_target (Module example_body) (Some ''m'') None = Some example_m
   \<and> is_first (target_test (Some ''m'') None) (walk (Module example_body)) example_m"
proof -
  have ug: "undocumented example_g"
    by (simp add: undocumented_def example_g_def truthy_doc_def)
  have dA: "\<not> undocumented example_A"
    by (simp add: undocumented_def example_A_def truthy_doc_def cleandoc_doc)
  have dM: "\<not> undocumented (Module example_body)"
    by (simp add: undocumented_def example_body_def truthy_doc_def cleandoc_m)
  have e: "\<not> undocumented (Expr x)" for x
    by (simp add: undocumented_def)
  have a: "find_target (Module example_body) None None = Some example_g"
    unfolding find_target_eq walk_example using ug dA dM e
    by (simp add: target_test_def)
  have nm: "has_name ''m'' example_m" "\<not> has_name ''m'' example_A"
    "\<not> has_name ''m'' example_g" "\<not> has_name ''m'' (Module example_body)"
    by (simp_all add: has_name_def example_m_def example_A_def example_g_def)
  have ne: "\<not> has_name ''m'' (Expr x)" for x
    by (simp add: has_name_def)
  have b: "find_target (Module example_body) (Some ''m'') None = Some example_m"
    unfolding find_target_eq walk_example using nm ne
    by (simp add: target_test_def)
  have a': "is_first (target_test None None) (walk (Module example_body)) example_g"
    using a C5_target_selection[of "Module example_body" None None example_g] by blast
  have b': "is_first (target_test (Some ''m'') None) (walk (Module example_body)) example_m"
    using b C5_target_selection[of "Module example_body" "Some ''m''" None example_m] by blast
  show ?thesis using a b a' b' by blast
qed

subsection \<open>The analyser and the file system\<close>





section \<open>Properties of the file tools\<close>

subsection \<open>Resolution is stable under writes\<close>








lemma failure_not_success: "\<not> is_success (failure e)"
  by (simp add: is_success_def failure_def get_key_def)



subsection \<open>Evaluating the example file system\<close>

lemmas fs_eval = resolve_def start_of_def os_path_isabs_def lookup_def step_def
  os_path_dirname_def os_path_split_def os_path_exists_def os_path_isdir_def
  all_slashes_def rstrip_slashes_def Let_def




subsection \<open>Create, read, delete\<close>




subsection \<open>Paths and their parent directories\<close>






















subsection \<open>Overwriting and parent directories\<close>



subsection \<open>Failures are returned, in several shapes\<close>














subsection \<open>Searching without recursion\<close>

lemma children_one_part:
  assumes "names_ok st" and "x \<in> set (children st k dironly)"
  shows "one_part x"
proof -
  from assms(2) obtain k' e where mem: "(k', e) \<in> set (entries st)" and ne: "k' \<noteq> []"
    and x: "x = last k'"
    by (auto simp: children_def split: if_splits)
  have "list_all (\<lambda>c. CHR ''/'' \<notin> set c) k'"
    using assms(1) mem by (auto simp: names_ok_def list_all_iff)
  moreover have "last k' \<in> set k'" using ne by simp
  ultimately show ?thesis using x by (simp add: list_all_iff one_part_def)
qed

lemma glob1_one_part:
  assumes "names_ok st" and "x \<in> set (glob1 fnmatch st dirname pattern dironly)"
  shows "one_part x"
proof -
  from assms(2) have "x \<in> set (listdir st dirname dironly)"
    by (auto simp: glob1_def Let_def split: if_splits)
  then obtain k where "x \<in> set (children st k dironly)"
    by (auto simp: listdir_def split: sum.splits)
  then show ?thesis using children_one_part[OF assms(1)] by blast
qed

lemma glob0_basename: "x \<in> set (glob0 st dirname basename dironly) \<Longrightarrow> x = basename"
  by (auto simp: glob0_def split: if_splits)

lemma skip_empty_subset:
  "set (case it of [] \<Rightarrow> [] | s # rest \<Rightarrow> if s \<noteq> [] then s # rest else rest) \<subseteq> set it"
  by (cases it) auto

lemma glob_subset:
  "set (glob fnmatch st pathname recursive) \<subseteq> set (iglob fnmatch st recursive False pathname)"
proof (cases "pathname = [] \<or> (recursive \<and> isrecursive (take 2 pathname))")
  case True
  then have "glob fnmatch st pathname recursive
      = (case iglob fnmatch st recursive False pathname of
           [] \<Rightarrow> [] | s # rest \<Rightarrow> if s \<noteq> [] then s # rest else rest)"
    unfolding glob_def Let_def by (rule if_P)
  then show ?thesis
    using skip_empty_subset[of "iglob fnmatch st recursive False pathname"] by (simp only:)
next
  case False
  then have "glob fnmatch st pathname recursive = iglob fnmatch st recursive False pathname"
    unfolding glob_def Let_def by (rule if_not_P)
  then show ?thesis by simp
qed

lemma has_magic_append: "has_magic (a @ b) = (has_magic a \<or> has_magic b)"
  by (auto simp: has_magic_def)

lemma has_magic_subset: "set a \<subseteq> set b \<Longrightarrow> has_magic a \<Longrightarrow> has_magic b"
  by (auto simp: has_magic_def)

lemma one_part_not_abs: "one_part name \<Longrightarrow> \<not> os_path_isabs name"
  by (cases name) (auto simp: one_part_def os_path_isabs_def)

lemma split_at_last:
  assumes "one_part b" and "a = [] \<or> last a = CHR ''/''"
  shows "rev (takeWhile (\<lambda>c. c \<noteq> CHR ''/'') (rev (a @ b))) = b"
    and "rev (dropWhile (\<lambda>c. c \<noteq> CHR ''/'') (rev (a @ b))) = a"
proof -
  have hd: "takeWhile (\<lambda>c. c \<noteq> CHR ''/'') (rev a) = []"
    using assms(2) by (cases a rule: rev_cases) auto
  have "takeWhile (\<lambda>c. c \<noteq> CHR ''/'') (rev b @ rev a)
      = rev b @ takeWhile (\<lambda>c. c \<noteq> CHR ''/'') (rev a)"
    by (rule takeWhile_append2) (use assms(1) in \<open>auto simp: one_part_def\<close>)
  then have t: "takeWhile (\<lambda>c. c \<noteq> CHR ''/'') (rev b @ rev a) = rev b"
    using hd by simp
  have dr: "dropWhile (\<lambda>c. c \<noteq> CHR ''/'') (rev a) = rev a"
    using hd by (metis takeWhile_dropWhile_id append_Nil)
  have "dropWhile (\<lambda>c. c \<noteq> CHR ''/'') (rev b @ rev a)
      = dropWhile (\<lambda>c. c \<noteq> CHR ''/'') (rev a)"
    by (rule dropWhile_append2) (use assms(1) in \<open>auto simp: one_part_def\<close>)
  then have d: "dropWhile (\<lambda>c. c \<noteq> CHR ''/'') (rev b @ rev a) = rev a"
    using dr by simp
  show "rev (takeWhile (\<lambda>c. c \<noteq> CHR ''/'') (rev (a @ b))) = b" using t by simp
  show "rev (dropWhile (\<lambda>c. c \<noteq> CHR ''/'') (rev (a @ b))) = a" using d by simp
qed

lemma split_of_append:
  assumes "one_part b" and "a = [] \<or> last a = CHR ''/''"
  shows "os_path_split (a @ b) = (if a \<noteq> [] \<and> \<not> all_slashes a then rstrip_slashes a else a, b)"
  by (simp only: os_path_split_def Let_def split_at_last[OF assms])

lemma join_one_part:
  "one_part pattern \<Longrightarrow> os_path_join directory pattern = join_prefix directory @ pattern"
  using one_part_not_abs[of pattern] by (simp add: os_path_join_def join_prefix_def)

lemma join_prefix_end: "join_prefix d = [] \<or> last (join_prefix d) = CHR ''/''"
  by (simp add: join_prefix_def)

lemma set_rstrip_slashes: "set (rstrip_slashes s) \<subseteq> set s"
  using rstrip_slashes_append[of s] by (metis Un_upper1 set_append)

lemma join_split:
  assumes "one_part pattern"
  shows "os_path_basename (os_path_join directory pattern) = pattern"
    and "set (os_path_dirname (os_path_join directory pattern)) \<subseteq> insert CHR ''/'' (set directory)"
proof -
  let ?a = "join_prefix directory"
  have j: "os_path_join directory pattern = ?a @ pattern" by (rule join_one_part[OF assms])
  have sp: "os_path_split (?a @ pattern)
      = (if ?a \<noteq> [] \<and> \<not> all_slashes ?a then rstrip_slashes ?a else ?a, pattern)"
    by (rule split_of_append[OF assms join_prefix_end])
  show "os_path_basename (os_path_join directory pattern) = pattern"
    unfolding j os_path_basename_def sp by simp
  have a: "set ?a \<subseteq> insert CHR ''/'' (set directory)" by (auto simp: join_prefix_def)
  have "os_path_dirname (?a @ pattern) = (if ?a \<noteq> [] \<and> \<not> all_slashes ?a then rstrip_slashes ?a else ?a)"
    unfolding os_path_dirname_def sp by simp
  then show "set (os_path_dirname (os_path_join directory pattern)) \<subseteq> insert CHR ''/'' (set directory)"
    unfolding j using a set_rstrip_slashes[of ?a] by auto
qed

lemma dirname_no_magic:
  assumes "one_part pattern" and "\<not> has_magic directory"
  shows "\<not> has_magic (os_path_dirname (os_path_join directory pattern))"
  using join_split(2)[OF assms(1), of directory] assms(2)
  by (auto simp: has_magic_def)

lemma iglob_flat:
  assumes p: "one_part pattern" and d: "\<not> has_magic directory" and ok: "names_ok st"
    and m: "m \<in> set (iglob fnmatch st False dironly (os_path_join directory pattern))"
  shows "m = os_path_join directory pattern
         \<or> (\<exists>name. one_part name
               \<and> m = os_path_join (os_path_dirname (os_path_join directory pattern)) name)"
proof -
  let ?path = "os_path_join directory pattern"
  let ?dn = "os_path_dirname ?path"
  have b: "os_path_basename ?path = pattern" by (rule join_split(1)[OF p])
  have nm: "\<not> has_magic ?dn" by (rule dirname_no_magic[OF p d])
  show ?thesis
  proof (cases "has_magic ?path")
    case False
    then have "m = ?path"
      using m by (subst (asm) iglob.simps) (auto split: if_splits)
    then show ?thesis by simp
  next
    case True
    show ?thesis
    proof (cases "?dn = []")
      case dn: True
      have "m \<in> set (glob1 fnmatch st ?dn pattern dironly)"
        using m True dn b by (subst (asm) iglob.simps) (auto split: if_splits)
      then have "one_part m" by (rule glob1_one_part[OF ok])
      moreover from this have "m = os_path_join ?dn m"
        using one_part_not_abs[of m] dn by (simp add: os_path_join_def)
      ultimately show ?thesis by blast
    next
      case dn: False
      have "m \<in> set (map (os_path_join ?dn)
                ((if has_magic pattern then glob1 fnmatch st else glob0 st) ?dn pattern dironly))"
        using m True dn b nm by (subst (asm) iglob.simps) (auto split: if_splits)
      then obtain name where n: "m = os_path_join ?dn name"
        and nin: "name \<in> set ((if has_magic pattern then glob1 fnmatch st else glob0 st) ?dn pattern dironly)"
        by auto
      have "one_part name"
      proof (cases "has_magic pattern")
        case True
        then show ?thesis using nin glob1_one_part[OF ok] by simp
      next
        case False
        then have "name = pattern" using nin glob0_basename by simp
        then show ?thesis using p by simp
      qed
      then show ?thesis using n by blast
    qed
  qed
qed

lemma dirname_of_join:
  assumes p: "one_part pattern" and ne: "directory \<noteq> []" and l: "last directory \<noteq> CHR ''/''"
  shows "os_path_dirname (os_path_join directory pattern) = directory"
proof -
  have jp: "join_prefix directory = directory @ ''/''"
    using ne l by (simp add: join_prefix_def)
  have j: "os_path_join directory pattern = (directory @ ''/'') @ pattern"
    using join_one_part[OF p, of directory] jp by simp
  have sp: "os_path_split ((directory @ ''/'') @ pattern)
      = (if directory @ ''/'' \<noteq> [] \<and> \<not> all_slashes (directory @ ''/'')
         then rstrip_slashes (directory @ ''/'') else directory @ ''/'', pattern)"
    by (rule split_of_append[OF p]) simp
  have nas: "\<not> all_slashes (directory @ ''/'')"
    using ne l by (cases directory rule: rev_cases) (auto simp: all_slashes_def)
  have "dropWhile (\<lambda>c. c = CHR ''/'') (rev directory) = rev directory"
    using ne l by (cases directory rule: rev_cases) auto
  then have rs: "rstrip_slashes (directory @ ''/'') = directory"
    by (simp add: rstrip_slashes_def)
  show ?thesis unfolding j os_path_dirname_def sp using nas rs by simp
qed

lemmas glob_eval = has_magic_def isrecursive_def ishidden_def glob_join_def children_def
  listdir_def glob1_def glob0_def glob2_def os_path_basename_def os_path_join_def

lemma names_ok_example: "names_ok example_fs"
  by (simp add: names_ok_def example_fs_def)

lemma iglob_pkg_py:
  "iglob fnmatch_simple example_fs False False ''/home/pkg/*.py'' = [''/home/pkg/n.py'']"
  by (subst iglob.simps) (simp add: glob_eval fs_eval example_fs_def)

lemma iglob_home_py:
  "iglob fnmatch_simple example_fs False False ''/home/*.py'' = [''/home/m.py'']"
  by (subst iglob.simps) (simp add: glob_eval fs_eval example_fs_def)

lemma find_matches_pkg:
  "find_matches fnmatch_simple example_fs ''/home'' ''pkg/*.py'' False = [''/home/pkg/n.py'']"
  by (simp add: find_matches_def glob_def os_path_join_def os_path_isabs_def isrecursive_def
      iglob_pkg_py)

lemma find_matches_home:
  "find_matches fnmatch_simple example_fs ''/home'' ''*.py'' False = [''/home/m.py'']"
  by (simp add: find_matches_def glob_def os_path_join_def os_path_isabs_def isrecursive_def
      iglob_home_py)

lemma relpath_n: "relpath example_fs ''/home/pkg/n.py'' ''/home'' = Inr ''pkg/n.py''"
  by (simp add: relpath_def abspath_def normpath_def norm_step_def os_path_isabs_def Let_def)

lemma rlistdir_pkg: "rlistdir example_fs [''home'', ''pkg''] True = []"
  by (subst rlistdir.simps) (simp add: children_def lookup_def example_fs_def)

lemma rlistdir_home: "rlistdir example_fs [''home''] True = [''pkg'']"
  by (subst rlistdir.simps)
     (simp add: children_def lookup_def example_fs_def ishidden_def rlistdir_pkg[unfolded example_fs_def])

lemma iglob_home_rec:
  "iglob fnmatch_simple example_fs True True ''/home/**'' = [''/home/'', ''/home/pkg'']"
proof -
  have r: "resolve example_fs ''/home'' = Inr [''home'']"
    by (simp add: fs_eval example_fs_def)
  have d: "os_path_isdir example_fs ''/home''"
    by (simp add: os_path_isdir_def r) (simp add: lookup_def example_fs_def)
  have g: "glob2 example_fs ''/home'' ''**'' True = [[], ''pkg'']"
    by (simp add: glob2_def d r rlistdir_home)
  have dn: "os_path_dirname ''/home/**'' = ''/home''" and bn: "os_path_basename ''/home/**'' = ''**''"
    by (simp_all add: os_path_dirname_def os_path_basename_def os_path_split_def Let_def
        all_slashes_def rstrip_slashes_def)
  show ?thesis
    by (subst iglob.simps) (simp add: dn bn g has_magic_def isrecursive_def os_path_join_def os_path_isabs_def)
qed

lemma iglob_home_rec_py:
  "iglob fnmatch_simple example_fs True False ''/home/**/*.py'' = [''/home/m.py'', ''/home/pkg/n.py'']"
proof -
  have dn: "os_path_dirname ''/home/**/*.py'' = ''/home/**''"
    and bn: "os_path_basename ''/home/**/*.py'' = ''*.py''"
    by (simp_all add: os_path_dirname_def os_path_basename_def os_path_split_def Let_def
        all_slashes_def rstrip_slashes_def)
  have g1: "glob1 fnmatch_simple example_fs ''/home/'' ''*.py'' False = [''m.py'']"
    by (simp add: glob_eval fs_eval example_fs_def)
  have g2: "glob1 fnmatch_simple example_fs ''/home/pkg'' ''*.py'' False = [''n.py'']"
    by (simp add: glob_eval fs_eval example_fs_def)
  show ?thesis
    by (subst iglob.simps)
       (simp add: dn bn iglob_home_rec g1 g2 has_magic_def isrecursive_def os_path_join_def
          os_path_isabs_def)
qed

lemma find_matches_home_rec:
  "find_matches fnmatch_simple example_fs ''/home'' ''*.py'' True = [''/home/m.py'', ''/home/pkg/n.py'']"
  by (simp add: find_matches_def glob_def os_path_join_def os_path_isabs_def isrecursive_def
      iglob_home_rec_py)

text \<open>
  Claim C8, as stated, fails: a pattern may hold a separator. In the example file
  system \<open>find_files("/home", "pkg/*.py", recursive=False)\<close> returns
  \<open>/home/pkg/n.py\<close>, a file in the subdirectory \<open>pkg\<close> of the directory searched.
\<close>

lemma C8_counterexample:
  "os_path_isdir example_fs ''/home''
   \<and> find_matches fnmatch_simple example_fs ''/home'' ''pkg/*.py'' False = [''/home/pkg/n.py'']
   \<and> os_path_isdir example_fs ''/home/pkg''
   \<and> find_files fnmatch_simple example_fs ''/home'' ''pkg/*.py'' False
       = JObj [(''success'', JBool True), (''pattern'', JStr ''pkg/*.py''),
               (''recursive'', JBool False),
               (''matches'', JList [JStr ''/home/pkg/n.py'']),
               (''relative_matches'', JList [JStr ''pkg/n.py'']),
               (''count'', JInt 1)]"
proof -
  have a: "os_path_isdir example_fs ''/home''" and b: "os_path_isdir example_fs ''/home/pkg''"
    by (simp_all add: fs_eval example_fs_def)
  show ?thesis
    using a b by (simp add: find_files_def find_matches_pkg relpath_n)
qed

text \<open>
  Claim C8, amended. For every directory name without glob characters and every pattern
  without a path separator, each match of \<open>find_files\<close> with \<open>recursive=False\<close> is the
  directory joined with a single name: it lies in the directory itself and never in a
  subdirectory. (A pattern with a separator is matched component by component and can
  return files of subdirectories.)
\<close>

theorem C8_non_recursive_matches:
  assumes p: "one_part pattern" and d: "\<not> has_magic directory" and ok: "names_ok st"
  shows "list_all (\<lambda>m. \<exists>name. one_part name
                     \<and> (m = os_path_join directory name
                          \<or> m = os_path_join (os_path_dirname (os_path_join directory pattern)) name))
           (find_matches fnmatch st directory pattern False)
       \<and> (directory \<noteq> [] \<and> last directory \<noteq> CHR ''/''
            \<longrightarrow> os_path_dirname (os_path_join directory pattern) = directory)
       \<and> (os_path_isdir st directory \<and> is_success (find_files fnmatch st directory pattern False)
            \<longrightarrow> get_key (find_files fnmatch st directory pattern False) ''matches''
                  = Some (JList (map JStr (find_matches fnmatch st directory pattern False))))"
proof (intro conjI impI)
  show "list_all (\<lambda>m. \<exists>name. one_part name
                     \<and> (m = os_path_join directory name
                          \<or> m = os_path_join (os_path_dirname (os_path_join directory pattern)) name))
           (find_matches fnmatch st directory pattern False)"
    unfolding list_all_iff
  proof
    fix m assume "m \<in> set (find_matches fnmatch st directory pattern False)"
    then have "m \<in> set (glob fnmatch st (os_path_join directory pattern) False)"
      by (simp add: find_matches_def)
    then have "m \<in> set (iglob fnmatch st False False (os_path_join directory pattern))"
      using glob_subset by blast
    from iglob_flat[OF p d ok this] p
    show "\<exists>name. one_part name
                     \<and> (m = os_path_join directory name
                          \<or> m = os_path_join (os_path_dirname (os_path_join directory pattern)) name)"
      by blast
  qed
next
  assume "directory \<noteq> [] \<and> last directory \<noteq> CHR ''/''"
  then show "os_path_dirname (os_path_join directory pattern) = directory"
    using dirname_of_join[OF p] by blast
next
  assume "os_path_isdir st directory \<and> is_success (find_files fnmatch st directory pattern False)"
  then show "get_key (find_files fnmatch st directory pattern False) ''matches''
                  = Some (JList (map JStr (find_matches fnmatch st directory pattern False)))"
    using failure_not_success
    by (auto simp: find_files_def Let_def get_key_def split: sum.splits)
qed

text \<open>
  Witness for C8: in the example file system the pattern \<open>*.py\<close> finds \<open>/home/m.py\<close>
  without recursion, and \<open>/home/pkg/n.py\<close> as well with it.
\<close>

theorem C8_non_recursive_matches_witness:
  "one_part ''*.py'' \<and> \<not> has_magic ''/home'' \<and> names_ok example_fs
   \<and> find_matches fnmatch_simple example_fs ''/home'' ''*.py'' False = [''/home/m.py'']
   \<and> find_matches fnmatch_simple example_fs ''/home'' ''*.py'' True
       = [''/home/m.py'', ''/home/pkg/n.py'']
   \<and> list_all (\<lambda>m. \<exists>name. one_part name
                     \<and> (m = os_path_join ''/home'' name
                          \<or> m = os_path_join (os_path_dirname (os_path_join ''/home'' ''*.py'')) name))
           (find_matches fnmatch_simple example_fs ''/home'' ''*.py'' False)
   \<and> os_path_dirname (os_path_join ''/home'' ''*.py'') = ''/home''"
proof -
  have p: "one_part ''*.py''" by (simp add: one_part_def)
  have d: "\<not> has_magic ''/home''" by (simp add: has_magic_def)
  note th = C8_non_recursive_matches[OF p d names_ok_example, of fnmatch_simple]
  have e: "''/home'' \<noteq> [] \<and> last ''/home'' \<noteq> CHR ''/''" by simp
  show ?thesis
    using p d names_ok_example find_matches_home find_matches_home_rec th e by blast
qed

end
